theory Spec2Isabelle
  imports Main "HOL-Library.Char_ord" "HOL-Library.List_Lexorder"
begin

section \<open>Regular expressions as the helper uses them\<close>

text \<open>
  \<^verbatim>\<open>jira-helper.js\<close> contains four regular expressions: the \<^verbatim>\<open>grep\<close> pattern
  \<^verbatim>\<open>[a-zA-Z]\+-[0-9]\+\<close> inside the shell command, and the JavaScript literals
  \<^verbatim>\<open>/^.*.xml/\<close>, \<^verbatim>\<open>/[^a-zA-Z]/g\<close> and \<^verbatim>\<open>/([a-zA-Z][a-zA-Z0-9]+-[0-9]+)/g\<close>.
  They are transcribed as terms of one small datatype. A bracket expression is a list of
  character ranges, compared by character code. A string is the list of the bytes of its
  UTF-8 encoding: what \<^verbatim>\<open>grep\<close> reads, and what Node decodes into the JavaScript
  string (a decoded string is always well-formed, so its bytes always are).
\<close>

datatype regex =
    Nothing
  | Eps
  | Class "(char \<times> char) list"
  | NotClass "(char \<times> char) list"
  | Seq regex regex
  | Alt regex regex
  | Star regex

definition in_class :: "(char \<times> char) list \<Rightarrow> char \<Rightarrow> bool" where
  "in_class rs c = list_ex (\<lambda>(lo, hi). lo \<le> c \<and> c \<le> hi) rs"

definition Lit :: "char \<Rightarrow> regex" where
  "Lit c = Class [(c, c)]"

definition Plus :: "regex \<Rightarrow> regex" where
  "Plus r = Seq r (Star r)"

definition newline :: char where
  "newline = CHR 0x0A"

text \<open>
  The JavaScript \<^verbatim>\<open>.\<close> (no \<^verbatim>\<open>s\<close> and no \<^verbatim>\<open>u\<close> flag) matches one UTF-16 code unit that
  is not a line terminator; the line terminators are U+000A, U+000D, U+2028 and U+2029.
  On the UTF-8 bytes a code unit is: one byte below 0x80; a lead byte 0xC2 to 0xDF with
  one continuation byte; a lead byte 0xE0 to 0xEF with two continuation bytes, where
  U+2028 and U+2029 are the bytes 0xE2 0x80 0xA8 and 0xE2 0x80 0xA9; and, for a character
  beyond U+FFFF (four bytes, two code units), the first two bytes for the high surrogate
  and the last two for the low one.
\<close>

definition continuation :: "(char \<times> char) list" where
  "continuation = [(CHR 0x80, CHR 0xBF)]"

definition Dot :: regex where
  "Dot =
     Alt (Class [(CHR 0x00, CHR 0x09), (CHR 0x0B, CHR 0x0C), (CHR 0x0E, CHR 0x7F)])
    (Alt (Seq (Class [(CHR 0xC2, CHR 0xDF)]) (Class continuation))
    (Alt (Seq (Class [(CHR 0xE0, CHR 0xE1), (CHR 0xE3, CHR 0xEF)])
            (Seq (Class continuation) (Class continuation)))
    (Alt (Seq (Lit (CHR 0xE2))
            (Alt (Seq (Class [(CHR 0x81, CHR 0xBF)]) (Class continuation))
                 (Seq (Lit (CHR 0x80)) (Class [(CHR 0x80, CHR 0xA7), (CHR 0xAA, CHR 0xBF)]))))
    (Alt (Seq (Class [(CHR 0xF0, CHR 0xF4)]) (Class continuation))
         (Seq (Class continuation) (Class continuation))))))"

subsection \<open>The language of an expression\<close>

definition conc :: "string set \<Rightarrow> string set \<Rightarrow> string set" where
  "conc A B = {u @ v | u v. u \<in> A \<and> v \<in> B}"

inductive_set star :: "string set \<Rightarrow> string set" for A :: "string set" where
  star_nil: "[] \<in> star A"
| star_app: "u \<in> A \<Longrightarrow> v \<in> star A \<Longrightarrow> u @ v \<in> star A"

primrec lang :: "regex \<Rightarrow> string set" where
  "lang Nothing = {}"
| "lang Eps = {[]}"
| "lang (Class rs) = {[c] | c. in_class rs c}"
| "lang (NotClass rs) = {[c] | c. \<not> in_class rs c}"
| "lang (Seq r s) = conc (lang r) (lang s)"
| "lang (Alt r s) = lang r \<union> lang s"
| "lang (Star r) = star (lang r)"

subsection \<open>Matching by derivatives\<close>

primrec nullable :: "regex \<Rightarrow> bool" where
  "nullable Nothing = False"
| "nullable Eps = True"
| "nullable (Class rs) = False"
| "nullable (NotClass rs) = False"
| "nullable (Seq r s) = (nullable r \<and> nullable s)"
| "nullable (Alt r s) = (nullable r \<or> nullable s)"
| "nullable (Star r) = True"

fun seq :: "regex \<Rightarrow> regex \<Rightarrow> regex" where
  "seq Nothing s = Nothing"
| "seq Eps s = s"
| "seq r s = Seq r s"

fun alt :: "regex \<Rightarrow> regex \<Rightarrow> regex" where
  "alt Nothing s = s"
| "alt r Nothing = r"
| "alt r s = Alt r s"

primrec deriv :: "char \<Rightarrow> regex \<Rightarrow> regex" where
  "deriv c Nothing = Nothing"
| "deriv c Eps = Nothing"
| "deriv c (Class rs) = (if in_class rs c then Eps else Nothing)"
| "deriv c (NotClass rs) = (if in_class rs c then Nothing else Eps)"
| "deriv c (Seq r s) =
     (if nullable r then alt (seq (deriv c r) s) (deriv c s) else seq (deriv c r) s)"
| "deriv c (Alt r s) = alt (deriv c r) (deriv c s)"
| "deriv c (Star r) = seq (deriv c r) (Star r)"

text \<open>
  \<open>longest r s\<close> is the length of the longest prefix of \<open>s\<close> that the expression
  matches, if any prefix matches at all.
\<close>

fun longest :: "regex \<Rightarrow> string \<Rightarrow> nat option" where
  "longest r [] = (if nullable r then Some 0 else None)"
| "longest r (c # cs) =
     (case longest (deriv c r) cs of
        Some n \<Rightarrow> Some (Suc n)
      | None \<Rightarrow> if nullable r then Some 0 else None)"

text \<open>
  \<^verbatim>\<open>regex.test(s)\<close> for a pattern that starts with \<^verbatim>\<open>^\<close> and has no flags: the match
  has to begin at index 0 and may end anywhere.
\<close>

definition test_anchored :: "regex \<Rightarrow> string \<Rightarrow> bool" where
  "test_anchored r s = (longest r s \<noteq> None)"

text \<open>
  \<^verbatim>\<open>s.match(/r/g)\<close> used as a condition: the result is an array (truthy) when some
  substring of \<open>s\<close> matches and \<^verbatim>\<open>null\<close> otherwise.
\<close>

fun match_truthy :: "regex \<Rightarrow> string \<Rightarrow> bool" where
  "match_truthy r [] = (longest r [] \<noteq> None)"
| "match_truthy r (c # cs) = (longest r (c # cs) \<noteq> None \<or> match_truthy r cs)"

section \<open>Values, effects and module state\<close>

text \<open>A JavaScript \<^verbatim>\<open>Error\<close> with its message; a rejected promise carries one.\<close>

datatype error = Error string

text \<open>
  A variable or environment entry that may still be \<^verbatim>\<open>undefined\<close> is an option.
  Inside a template literal \<^verbatim>\<open>undefined\<close> prints as the nine letters.
\<close>

definition tpl :: "string option \<Rightarrow> string" where
  "tpl v = (case v of None \<Rightarrow> ''undefined'' | Some s \<Rightarrow> s)"

text \<open>
  \<^verbatim>\<open>fs.createReadStream(path)\<close> returns a fresh stream object on every call. A stream is
  identified by the number of streams the process opened before it, together with its path.
\<close>

datatype stream = ReadStream nat string

datatype payload = Json "(string \<times> string option) list" | Piped stream

record http_request =
  verb :: string
  url :: string
  payload :: payload
  headers :: "(string \<times> string) list"

text \<open>The argument of \<^verbatim>\<open>jira.updateIssue\<close> built by \<^verbatim>\<open>linkTestExecutionResults\<close>.\<close>

record issue_link =
  link_name :: string
  inward :: string
  outward :: string
  inwardIssue :: string

text \<open>The argument of \<^verbatim>\<open>jira.addNewIssue\<close>.\<close>

record issue_fields =
  project :: string
  summary :: string
  description :: string
  issuetype :: nat

text \<open>
  An object answered by the tracker (a created issue, a project). The helper reads its
  \<^verbatim>\<open>key\<close> field only.
\<close>

record jira_object =
  key :: string

datatype logged = Text string | Thrown error | Array "string list"

text \<open>
  What an invocation does to the outside, in program order: console output, streams
  opened, HTTP requests handed to \<^verbatim>\<open>needle\<close> and calls handed to the tracker client.
  A call made inside an \<^verbatim>\<open>async\<close> callback of \<^verbatim>\<open>forEach\<close> is issued before the callback
  first suspends, hence while \<^verbatim>\<open>forEach\<close> runs; what the callback does after its
  \<^verbatim>\<open>await\<close> happens once the answer arrives and is given by a separate function.
\<close>

datatype event =
    ConsoleLog logged
  | ConsoleError logged
  | CreateReadStream stream
  | Needle http_request
  | UpdateIssue string issue_link
  | AddAttachmentOnIssue string stream
  | AddCommentAdvanced string string

text \<open>
  The module-level \<^verbatim>\<open>let\<close> variables (lines 17 to 22), \<^verbatim>\<open>undefined\<close> until first
  assigned, and the count of read streams opened so far. Three of the variables refer to
  arrays. An array is an object: \<^verbatim>\<open>x = []\<close> makes a new one, \<^verbatim>\<open>x.push\<close> changes the one
  \<open>x\<close> refers to, \<^verbatim>\<open>return x\<close> hands out the array itself and not a copy. So the state
  holds the arrays made so far, an array variable holds the index of its array, and a
  returned array is read where it lies.

  The variables live as long as the process and are shared by all invocations. An
  \<^verbatim>\<open>async\<close> function runs without interruption from one \<^verbatim>\<open>await\<close> to the next, and
  other invocations can run while it is suspended. Each function with an \<^verbatim>\<open>await\<close> is
  therefore given piece by piece, every piece taking the state as it finds it; the function
  under its own name is the invocation that nothing else interrupts, its pieces one after
  the other.
\<close>

record state =
  arrays :: "string list list"
  xmlReportFiles :: "nat option"
  xrayToken :: "string option"
  verifiedJiraTicketsList :: "nat option"
  jiraProjectKeysArray :: "nat option"
  branchToCompare :: "string option"
  branchName :: "string option"
  opened :: nat

definition initial_state :: state where
  "initial_state =
     \<lparr>arrays = [], xmlReportFiles = None, xrayToken = None, verifiedJiraTicketsList = None,
      jiraProjectKeysArray = None, branchToCompare = None, branchName = None, opened = 0\<rparr>"

definition new_array :: "state \<Rightarrow> nat \<times> state" where
  "new_array st = (length (arrays st), st\<lparr>arrays := arrays st @ [[]]\<rparr>)"

definition array_at :: "state \<Rightarrow> nat \<Rightarrow> string list" where
  "array_at st a = (if a < length (arrays st) then arrays st ! a else [])"

definition push :: "nat \<Rightarrow> string \<Rightarrow> state \<Rightarrow> state" where
  "push a x st = st\<lparr>arrays := (arrays st)[a := array_at st a @ [x]]\<rparr>"

text \<open>Calling a method on a variable that is still \<^verbatim>\<open>undefined\<close>.\<close>

definition cannot_read :: "string \<Rightarrow> string \<Rightarrow> error" where
  "cannot_read what property =
     Error (''TypeError: Cannot read properties of '' @ what @ '' (reading '' @ [CHR 0x27]
       @ property @ [CHR 0x27] @ '')'')"

record process_env =
  XRAY_CLOUD_URL :: "string option"
  XRAY_CLIENT_ID :: "string option"
  XRAY_CLIENT_SECRET :: "string option"

definition projectKey :: string where
  "projectKey = ''DEMO''"

section \<open>createJiraTestExecutionTicket\<close>

text \<open>
  Lines 37 to 60. The numbers \<^verbatim>\<open>githubRun\<close> and \<^verbatim>\<open>githubRunId\<close> arrive as the text the
  template literal prints for them. \<open>addNewIssue\<close> is the tracker client: it rejects, or
  it resolves with some value. Reading \<^verbatim>\<open>issue.key\<close> off \<^verbatim>\<open>undefined\<close> or \<^verbatim>\<open>null\<close> throws
  a \<^verbatim>\<open>TypeError\<close>; off any other value it gives the value's \<^verbatim>\<open>key\<close> property, which is
  \<^verbatim>\<open>undefined\<close> when the value has none. The whole body is inside \<^verbatim>\<open>try\<close>; the handler
  logs with \<^verbatim>\<open>console.error\<close> and returns \<^verbatim>\<open>null\<close>. The result is a sum so that a
  rejection of the returned promise would be an \<open>Inl\<close>.
\<close>

datatype resolved = ResolvedUndefined | ResolvedNull | ResolvedValue "string option"

datatype returned = Key string | Undefined | Null

definition issueObject ::
  "string \<Rightarrow> string \<Rightarrow> string \<Rightarrow> string \<Rightarrow> string \<Rightarrow> string \<Rightarrow> issue_fields" where
  "issueObject githubRepo githubRun env actor githubRunId branch =
     \<lparr>project = projectKey,
      summary = ''Automated test run for '' @ githubRepo @ '', github run number: #'' @ githubRun
        @ '' | Env: '' @ env,
      description = ''Automated test results executed for '' @ githubRepo @ '' on branch ''
        @ branch @ '' by '' @ actor @ ''.'' @ [newline]
        @ ''        Click https://github.com/'' @ githubRepo @ ''/actions/runs/'' @ githubRunId
        @ '' to see the Github Action workflow summary.'',
      issuetype = 10008\<rparr>"

definition createJiraTestExecutionTicket ::
  "(issue_fields \<Rightarrow> error + resolved) \<Rightarrow>
   string \<Rightarrow> string \<Rightarrow> string \<Rightarrow> string \<Rightarrow> string \<Rightarrow> string \<Rightarrow>
   (error + returned) \<times> event list" where
  "createJiraTestExecutionTicket addNewIssue githubRepo githubRun env actor githubRunId branch =
     (case addNewIssue (issueObject githubRepo githubRun env actor githubRunId branch) of
        Inr (ResolvedValue (Some testExecutionKey)) \<Rightarrow> (Inr (Key testExecutionKey), [])
      | Inr (ResolvedValue None) \<Rightarrow> (Inr Undefined, [])
      | Inr ResolvedUndefined \<Rightarrow>
          (Inr Null, [ConsoleError (Thrown (cannot_read ''undefined'' ''key''))])
      | Inr ResolvedNull \<Rightarrow> (Inr Null, [ConsoleError (Thrown (cannot_read ''null'' ''key''))])
      | Inl err \<Rightarrow> (Inr Null, [ConsoleError (Thrown err)]))"

section \<open>listXmlReports\<close>

text \<open>The literal \<^verbatim>\<open>/^.*.xml/\<close> of line 71; the leading \<^verbatim>\<open>^\<close> is the anchored test.\<close>

definition xml_regex :: regex where
  "xml_regex =
     Seq (Star Dot) (Seq Dot (Seq (Lit CHR ''x'') (Seq (Lit CHR ''m'') (Lit CHR ''l''))))"

text \<open>
  The loop of lines 73 to 77: push every entry the expression accepts onto the array of
  line 69. The function has no \<^verbatim>\<open>await\<close>, so \<^verbatim>\<open>xmlReportFiles\<close> refers to that array
  all the way.
\<close>

fun push_matching :: "nat \<Rightarrow> string list \<Rightarrow> state \<Rightarrow> state" where
  "push_matching a [] st = st"
| "push_matching a (f # fs) st =
     push_matching a fs (if test_anchored xml_regex f then push a f st else st)"

text \<open>
  \<open>readdirSync\<close> is the file system: the entries of a directory in enumeration order,
  or the error it throws. The function assigns the module variable first, so an unreadable
  directory leaves a new empty array there. What is returned is the array; the model gives
  its content at the return.
\<close>

definition listXmlReports ::
  "(string \<Rightarrow> error + string list) \<Rightarrow> string \<Rightarrow> state \<Rightarrow> (error + string list) \<times> state" where
  "listXmlReports readdirSync dir st =
     (let (a, st1) = new_array st;
          st2 = st1\<lparr>xmlReportFiles := Some a\<rparr>
      in case readdirSync dir of
           Inl err \<Rightarrow> (Inl err, st2)
         | Inr files \<Rightarrow>
             (let st3 = push_matching a files st2
              in (Inr (array_at st3 a), st3)))"

text \<open>A name contains a text when the text is a prefix of one of the name's suffixes.\<close>

fun is_prefix :: "string \<Rightarrow> string \<Rightarrow> bool" where
  "is_prefix [] s = True"
| "is_prefix (p # ps) [] = False"
| "is_prefix (p # ps) (c # cs) = (p = c \<and> is_prefix ps cs)"

fun contains :: "string \<Rightarrow> string \<Rightarrow> bool" where
  "contains sub [] = is_prefix sub []"
| "contains sub (c # cs) = (is_prefix sub (c # cs) \<or> contains sub cs)"

section \<open>importXmlDataToXray\<close>

definition authenticate_request :: "process_env \<Rightarrow> http_request" where
  "authenticate_request penv =
     \<lparr>verb = ''POST'',
      url = tpl (XRAY_CLOUD_URL penv) @ ''/api/v2/authenticate'',
      payload = Json [(''client_id'', XRAY_CLIENT_ID penv),
                      (''client_secret'', XRAY_CLIENT_SECRET penv)],
      headers = [(''content-type'', ''application/json'')]\<rparr>"

definition import_request ::
  "process_env \<Rightarrow> string \<Rightarrow> string option \<Rightarrow> stream \<Rightarrow> http_request" where
  "import_request penv testExecutionKey token xmlBodyString =
     \<lparr>verb = ''POST'',
      url = tpl (XRAY_CLOUD_URL penv) @ ''/api/v2/import/execution/junit?projectKey=''
        @ projectKey @ ''&testExecKey='' @ testExecutionKey,
      payload = Piped xmlBodyString,
      headers = [(''Authorization'', ''Bearer '' @ tpl token), (''content-type'', ''text/xml'')]\<rparr>"

text \<open>
  The callback of line 110 up to its \<^verbatim>\<open>await\<close>, for each file in turn: open the stream,
  hand the request to \<^verbatim>\<open>needle\<close>. The token is the module variable as it is then.
\<close>

fun import_each ::
  "process_env \<Rightarrow> string \<Rightarrow> string \<Rightarrow> string list \<Rightarrow> state \<Rightarrow> event list \<times> state" where
  "import_each penv dir testExecutionKey [] st = ([], st)"
| "import_each penv dir testExecutionKey (xmlFile # rest) st =
     (let xmlBodyString = ReadStream (opened st) (dir @ ''/'' @ xmlFile);
          st1 = st\<lparr>opened := Suc (opened st)\<rparr>;
          req = import_request penv testExecutionKey (xrayToken st1) xmlBodyString;
          (evs, st2) = import_each penv dir testExecutionKey rest st1
      in (CreateReadStream xmlBodyString # Needle req # evs, st2))"

text \<open>
  The rest of that callback, once the answer to one file's request is there; \<open>answer\<close>
  is the response body as \<^verbatim>\<open>JSON.stringify\<close> prints it, or the rejection.
\<close>

definition import_settled :: "error + string \<Rightarrow> string \<Rightarrow> event list" where
  "import_settled answer xmlFile =
     (case answer of
        Inr json \<Rightarrow> [ConsoleLog (Text (''XRAY RESPONSE => '' @ json)), ConsoleLog (Text xmlFile)]
      | Inl err \<Rightarrow> [ConsoleLog (Thrown err), ConsoleLog (Text xmlFile)])"

text \<open>
  Lines 89 to 129, in the pieces between its suspensions.

  Line 90: the listing. An unreadable directory rejects the call; the result of
  \<open>listXmlReports\<close> is not used, the file list is read off the module variable later.
\<close>

definition import_list ::
  "(string \<Rightarrow> error + string list) \<Rightarrow> string \<Rightarrow> state \<Rightarrow> error option \<times> state" where
  "import_list readdirSync dir st =
     (case listXmlReports readdirSync dir st of
        (Inl err, st1) \<Rightarrow> (Some err, st1)
      | (Inr listed, st1) \<Rightarrow> (None, st1))"

text \<open>
  Lines 103 to 108, once \<^verbatim>\<open>needle\<close> has answered the authentication request with the
  response body or a rejection. A rejection is logged by the \<^verbatim>\<open>.catch\<close> and nothing else
  happens: the token variable keeps its value.
\<close>

definition import_answered :: "error + string \<Rightarrow> state \<Rightarrow> event list \<times> state" where
  "import_answered answer st =
     (case answer of
        Inr body \<Rightarrow>
          ([ConsoleLog (Text (''Generated Xray token => '' @ body))], st\<lparr>xrayToken := Some body\<rparr>)
      | Inl err \<Rightarrow> ([ConsoleLog (Thrown err)], st))"

text \<open>
  Lines 110 to 128: \<^verbatim>\<open>forEach\<close> over the array \<^verbatim>\<open>xmlReportFiles\<close> refers to now, with
  this call's \<open>dir\<close> and \<open>testExecutionKey\<close>.
\<close>

definition import_send ::
  "process_env \<Rightarrow> string \<Rightarrow> string \<Rightarrow> state \<Rightarrow> (error + unit) \<times> event list \<times> state" where
  "import_send penv dir testExecutionKey st =
     (case xmlReportFiles st of
        None \<Rightarrow> (Inl (cannot_read ''undefined'' ''forEach''), [], st)
      | Some a \<Rightarrow>
          (let (evs, st1) = import_each penv dir testExecutionKey (array_at st a) st
           in (Inr (), evs, st1)))"

text \<open>
  What a call does from the moment the authentication is answered, if its listing did
  not fail; its list of effects starts with the authentication request it had sent.
\<close>

definition import_resume ::
  "error option \<Rightarrow> process_env \<Rightarrow> error + string \<Rightarrow> string \<Rightarrow> string \<Rightarrow> state \<Rightarrow>
   (error + unit) \<times> event list \<times> state" where
  "import_resume failed penv answer dir testExecutionKey st =
     (case failed of
        Some err \<Rightarrow> (Inl err, [], st)
      | None \<Rightarrow>
          (let (logs, st1) = import_answered answer st;
               (outcome, evs, st2) = import_send penv dir testExecutionKey st1
           in (outcome, Needle (authenticate_request penv) # logs @ evs, st2)))"

text \<open>The invocation that nothing interrupts; \<open>needle\<close> answers the authentication.\<close>

definition importXmlDataToXray ::
  "(string \<Rightarrow> error + string list) \<Rightarrow> process_env \<Rightarrow> (http_request \<Rightarrow> error + string) \<Rightarrow>
   string \<Rightarrow> string \<Rightarrow> state \<Rightarrow> (error + unit) \<times> event list \<times> state" where
  "importXmlDataToXray readdirSync penv needle dir testExecutionKey st =
     (let (failed, st1) = import_list readdirSync dir st
      in import_resume failed penv (needle (authenticate_request penv)) dir testExecutionKey st1)"

text \<open>
  Two invocations started one after the other, as in
  \<^verbatim>\<open>Promise.all([importXmlDataToXray(dirA, keyA), importXmlDataToXray(dirB, keyB)])\<close>: each
  runs up to its first suspension when it is called, so both listings are done before
  either call goes on; then the authentications are answered in the order of the calls.
  The result is what each of the two calls did.
\<close>

definition overlapping_imports ::
  "(string \<Rightarrow> error + string list) \<Rightarrow> process_env \<Rightarrow> (http_request \<Rightarrow> error + string) \<Rightarrow>
   string \<Rightarrow> string \<Rightarrow> string \<Rightarrow> string \<Rightarrow> state \<Rightarrow>
   ((error + unit) \<times> event list) \<times> ((error + unit) \<times> event list)" where
  "overlapping_imports readdirSync penv needle dirA keyA dirB keyB st =
     (let (failedA, st1) = import_list readdirSync dirA st;
          (failedB, st2) = import_list readdirSync dirB st1;
          answer = needle (authenticate_request penv);
          (outcomeA, evsA, st3) = import_resume failedA penv answer dirA keyA st2;
          (outcomeB, evsB, st4) = import_resume failedB penv answer dirB keyB st3
      in ((outcomeA, evsA), (outcomeB, evsB)))"

section \<open>findRelatedJiraTicket\<close>

subsection \<open>The shell pipeline of line 168\<close>

text \<open>
  The command handed to \<^verbatim>\<open>exec\<close>, with the two branch references spliced in.
\<close>

definition git_command :: "string \<Rightarrow> string \<Rightarrow> string" where
  "git_command base head =
     ''git log --pretty=oneline --no-merges '' @ base @ ''..'' @ head
       @ '' | grep -e '' @ [CHR 0x27] @ ''[a-zA-Z]'' @ [CHR 0x5C] @ ''+-[0-9]'' @ [CHR 0x5C]
       @ ''+'' @ [CHR 0x27] @ '' -o | sort -u''"

text \<open>The \<^verbatim>\<open>grep\<close> pattern \<^verbatim>\<open>[a-zA-Z]\+-[0-9]\+\<close>.\<close>

definition letters :: "(char \<times> char) list" where
  "letters = [(CHR ''a'', CHR ''z''), (CHR ''A'', CHR ''Z'')]"

definition digits :: "(char \<times> char) list" where
  "digits = [(CHR ''0'', CHR ''9'')]"

definition ticket_regex :: regex where
  "ticket_regex = Seq (Plus (Class letters)) (Seq (Lit CHR ''-'') (Plus (Class digits)))"

text \<open>
  \<^verbatim>\<open>String.prototype.split\<close> on a one-character separator; the pieces of a text read
  line by line are the same, up to a last empty piece.
\<close>

fun split_on :: "char \<Rightarrow> string \<Rightarrow> string list" where
  "split_on sep [] = [[]]"
| "split_on sep (c # cs) =
     (if c = sep then [] # split_on sep cs
      else (case split_on sep cs of
              [] \<Rightarrow> [[c]]
            | piece # pieces \<Rightarrow> (c # piece) # pieces))"

text \<open>
  \<^verbatim>\<open>grep -o\<close> on one line: the leftmost match, at its longest, then on from its end;
  empty matches are not printed. The counter is the number of characters of the line
  that still belong to the match just printed.
\<close>

fun grep_o_line :: "regex \<Rightarrow> nat \<Rightarrow> string \<Rightarrow> string list" where
  "grep_o_line r k [] = []"
| "grep_o_line r (Suc k) (c # cs) = grep_o_line r k cs"
| "grep_o_line r 0 (c # cs) =
     (case longest r (c # cs) of
        Some (Suc n) \<Rightarrow> take (Suc n) (c # cs) # grep_o_line r n cs
      | _ \<Rightarrow> grep_o_line r 0 cs)"

definition grep_o :: "regex \<Rightarrow> string \<Rightarrow> string list" where
  "grep_o r text = concat (map (grep_o_line r 0) (split_on newline text))"

text \<open>
  \<^verbatim>\<open>sort -u\<close>: the lines in ascending order, one of each. The order is that of the
  character codes, as \<^verbatim>\<open>sort\<close> compares in the C locale; there the ranges of the
  \<^verbatim>\<open>grep\<close> pattern are the ASCII letters and digits as well.
\<close>

definition sort_u :: "string list \<Rightarrow> string list" where
  "sort_u ls = remdups_adj (sort ls)"

definition unlines :: "string list \<Rightarrow> string" where
  "unlines ls = concat (map (\<lambda>l. l @ [newline]) ls)"

text \<open>What the pipeline prints when \<^verbatim>\<open>git log\<close> prints \<open>log\<close>.\<close>

definition ticket_pipeline :: "string \<Rightarrow> string" where
  "ticket_pipeline log = unlines (sort_u (grep_o ticket_regex log))"

text \<open>A child process in which \<^verbatim>\<open>git log\<close> prints \<open>log\<close> and the pipeline exits with 0.\<close>

definition exec_on_log :: "string \<Rightarrow> string \<Rightarrow> error + string" where
  "exec_on_log log command = Inr (ticket_pipeline log)"

subsection \<open>Lines 169 and 170\<close>

text \<open>
  \<^verbatim>\<open>toUpperCase\<close> on the characters \<^verbatim>\<open>grep\<close> lets through (letters of the two ranges,
  digits, the hyphen): a lower-case letter moves down by 32, nothing else changes.
\<close>

definition toUpperChar :: "char \<Rightarrow> char" where
  "toUpperChar c =
     (if CHR ''a'' \<le> c \<and> c \<le> CHR ''z'' then char_of (of_char c - (32::nat)) else c)"

definition toUpperCase :: "string \<Rightarrow> string" where
  "toUpperCase s = map toUpperChar s"

text \<open>\<^verbatim>\<open>[...new Set(xs)]\<close>: the elements in the order in which they were first inserted.\<close>

fun set_add_all :: "'a list \<Rightarrow> 'a list \<Rightarrow> 'a list" where
  "set_add_all seen [] = seen"
| "set_add_all seen (x # xs) = set_add_all (if x \<in> set seen then seen else seen @ [x]) xs"

definition new_Set :: "'a list \<Rightarrow> 'a list" where
  "new_Set xs = set_add_all [] xs"

text \<open>\<^verbatim>\<open>.filter(String)\<close> keeps the pieces that are not the empty string.\<close>

definition initialJiraTicketsList :: "string \<Rightarrow> string list" where
  "initialJiraTicketsList jiraTickets =
     new_Set (map toUpperCase (filter (\<lambda>piece. piece \<noteq> []) (split_on newline jiraTickets)))"

subsection \<open>Lines 180 to 188\<close>

text \<open>The literal \<^verbatim>\<open>/([a-zA-Z][a-zA-Z0-9]+-[0-9]+)/g\<close>.\<close>

definition strict_regex :: regex where
  "strict_regex =
     Seq (Class letters)
       (Seq (Plus (Class (letters @ digits))) (Seq (Lit CHR ''-'') (Plus (Class digits))))"

text \<open>
  \<^verbatim>\<open>.replace(/[^a-zA-Z]/g, '')\<close>: every character the one-character pattern matches
  is deleted.
\<close>

definition extractedKey :: "string \<Rightarrow> string" where
  "extractedKey ticket = filter (\<lambda>c. \<not> test_anchored (NotClass letters) [c]) ticket"

text \<open>The condition of line 182, for a given content of the array of project keys.\<close>

definition verified :: "string list \<Rightarrow> string \<Rightarrow> bool" where
  "verified projectKeys ticket =
     (match_truthy strict_regex ticket \<and> extractedKey ticket \<in> set projectKeys)"

definition not_found :: error where
  "not_found = Error ''Could not find related Jira ticket''"

text \<open>Lines 161 to 167: under CI both references name the remote-tracking branch.\<close>

definition branch_ref :: "bool \<Rightarrow> string \<Rightarrow> string" where
  "branch_ref executedFromCI branch = (if executedFromCI then ''origin/'' @ branch else branch)"

text \<open>
  Lines 159 to 189, in the pieces between its suspensions. Neither \<^verbatim>\<open>await\<close> is inside a
  \<^verbatim>\<open>try\<close>, so a rejection of \<^verbatim>\<open>exec\<close> or of \<^verbatim>\<open>listProjects\<close> rejects the call.

  Lines 160 to 168, up to the call of \<^verbatim>\<open>exec\<close>: a new array for the verified tickets,
  the two branch variables, and the command built from them.
\<close>

definition find_begin :: "string \<Rightarrow> string \<Rightarrow> bool \<Rightarrow> state \<Rightarrow> string \<times> state" where
  "find_begin currentBranchToCompare currentBranchName executedFromCI st =
     (let (v, st1) = new_array st;
          base = branch_ref executedFromCI currentBranchToCompare;
          head = branch_ref executedFromCI currentBranchName;
          st2 = st1\<lparr>verifiedJiraTicketsList := Some v, branchToCompare := Some base,
                   branchName := Some head\<rparr>
      in (git_command base head, st2))"

text \<open>
  Lines 168 to 174, once \<^verbatim>\<open>exec\<close> has answered with the standard output or a rejection:
  the candidates (a constant of the call) and a new array for the project keys.
\<close>

definition find_candidates :: "error + string \<Rightarrow> state \<Rightarrow> (error + string list) \<times> state" where
  "find_candidates answer st =
     (case answer of
        Inl err \<Rightarrow> (Inl err, st)
      | Inr jiraTickets \<Rightarrow>
          (let (k, st1) = new_array st
           in (Inr (initialJiraTicketsList jiraTickets), st1\<lparr>jiraProjectKeysArray := Some k\<rparr>)))"

text \<open>
  Lines 175 to 177: every listed key is pushed onto the array \<^verbatim>\<open>jiraProjectKeysArray\<close>
  refers to. The callback is \<^verbatim>\<open>async\<close>, so a \<^verbatim>\<open>TypeError\<close> of the push (the variable
  \<^verbatim>\<open>undefined\<close>) would reject the callback's own promise and not the call.
\<close>

fun push_keys :: "string list \<Rightarrow> state \<Rightarrow> state" where
  "push_keys [] st = st"
| "push_keys (x # xs) st =
     push_keys xs (case jiraProjectKeysArray st of None \<Rightarrow> st | Some k \<Rightarrow> push k x st)"

text \<open>
  The loop of lines 180 to 187. \<^verbatim>\<open>&&\<close> asks for \<^verbatim>\<open>includes\<close> only when \<^verbatim>\<open>match\<close> found
  something; a candidate that passes both is pushed onto the array
  \<^verbatim>\<open>verifiedJiraTicketsList\<close> refers to. On a throw that array keeps what was pushed.
\<close>

fun verify_loop :: "string list \<Rightarrow> state \<Rightarrow> error option \<times> state" where
  "verify_loop [] st = (None, st)"
| "verify_loop (ticket # tickets) st =
     (if \<not> match_truthy strict_regex ticket then (Some not_found, st)
      else case jiraProjectKeysArray st of
             None \<Rightarrow> (Some (cannot_read ''undefined'' ''includes''), st)
           | Some k \<Rightarrow>
               if extractedKey ticket \<notin> set (array_at st k) then (Some not_found, st)
               else (case verifiedJiraTicketsList st of
                       None \<Rightarrow> (Some (cannot_read ''undefined'' ''push''), st)
                     | Some v \<Rightarrow> verify_loop tickets (push v ticket st)))"

text \<open>
  Lines 174 to 188, once \<^verbatim>\<open>listProjects\<close> has answered (if \<^verbatim>\<open>exec\<close> had not rejected;
  \<open>candidates\<close> is what the previous piece gave). The two array variables are read as
  they are now, whichever invocation assigned them last. The value returned is that of
  \<^verbatim>\<open>verifiedJiraTicketsList\<close>: the array itself, or \<^verbatim>\<open>undefined\<close> (\<open>None\<close>).
\<close>

definition find_verify ::
  "error + string list \<Rightarrow> error + jira_object list \<Rightarrow> state \<Rightarrow> (error + nat option) \<times> state" where
  "find_verify candidates answer st =
     (case candidates of
        Inl err \<Rightarrow> (Inl err, st)
      | Inr tickets \<Rightarrow>
          (case answer of
             Inl err \<Rightarrow> (Inl err, st)
           | Inr jiraProjects \<Rightarrow>
               (case verify_loop tickets (push_keys (map key jiraProjects) st) of
                  (Some err, st1) \<Rightarrow> (Inl err, st1)
                | (None, st1) \<Rightarrow> (Inr (verifiedJiraTicketsList st1), st1))))"

text \<open>
  What the caller finds in a returned value: the content of the array as it is by then.
  (\<^verbatim>\<open>undefined\<close> has no content; the variable is assigned on line 160 of every
  invocation, so no invocation returns it.)
\<close>

definition content :: "state \<Rightarrow> nat option \<Rightarrow> string list" where
  "content st value = (case value of None \<Rightarrow> [] | Some v \<Rightarrow> array_at st v)"

text \<open>
  The invocation that nothing interrupts. Its result is the returned array as it is at
  the return.
\<close>

definition findRelatedJiraTicket ::
  "(string \<Rightarrow> error + string) \<Rightarrow> (error + jira_object list) \<Rightarrow>
   string \<Rightarrow> string \<Rightarrow> bool \<Rightarrow> state \<Rightarrow> (error + string list) \<times> state" where
  "findRelatedJiraTicket exec listProjects currentBranchToCompare currentBranchName executedFromCI st =
     (let (command, st1) = find_begin currentBranchToCompare currentBranchName executedFromCI st;
          (candidates, st2) = find_candidates (exec command) st1;
          (outcome, st3) = find_verify candidates listProjects st2
      in (map_sum id (content st3) outcome, st3))"

text \<open>
  Two invocations started one after the other, as in
  \<^verbatim>\<open>Promise.all([findRelatedJiraTicket(...), findRelatedJiraTicket(...)])\<close>: each runs up to
  its call of \<^verbatim>\<open>exec\<close> when it is called; then the two commands are answered, then the
  two project listings, each time in the order of the calls. The tracker answers the
  first call with \<open>listProjectsA\<close> and the second with \<open>listProjectsB\<close>. The results are
  the two returned arrays as the caller finds them when both calls have returned.
\<close>

definition overlapping_finds ::
  "(string \<Rightarrow> error + string) \<Rightarrow>
   (error + jira_object list) \<Rightarrow> string \<Rightarrow> string \<Rightarrow> bool \<Rightarrow>
   (error + jira_object list) \<Rightarrow> string \<Rightarrow> string \<Rightarrow> bool \<Rightarrow>
   state \<Rightarrow> (error + string list) \<times> (error + string list)" where
  "overlapping_finds exec listProjectsA compareA nameA fromCIA listProjectsB compareB nameB fromCIB st =
     (let (commandA, st1) = find_begin compareA nameA fromCIA st;
          (commandB, st2) = find_begin compareB nameB fromCIB st1;
          (candidatesA, st3) = find_candidates (exec commandA) st2;
          (candidatesB, st4) = find_candidates (exec commandB) st3;
          (outcomeA, st5) = find_verify candidatesA listProjectsA st4;
          (outcomeB, st6) = find_verify candidatesB listProjectsB st5
      in (map_sum id (content st6) outcomeA, map_sum id (content st6) outcomeB))"

text \<open>
  The extraction of lines 168 to 170 as one function of the commit log text, and what
  section 4.5 step 3 of the specification words: the matches in the order in which they
  first occur in the text.
\<close>

definition extract_tickets :: "string \<Rightarrow> string list" where
  "extract_tickets log = initialJiraTicketsList (ticket_pipeline log)"

definition first_occurrence_tickets :: "string \<Rightarrow> string list" where
  "first_occurrence_tickets log = new_Set (map toUpperCase (grep_o ticket_regex log))"

section \<open>linkTestExecutionResults\<close>

definition link_object :: "string \<Rightarrow> issue_link" where
  "link_object jiraExecutionTicket =
     \<lparr>link_name = ''Test'', inward = ''is tested by'', outward = ''tests'',
      inwardIssue = jiraExecutionTicket\<rparr>"

text \<open>
  \<^verbatim>\<open>!relatedJiraTickets.length > 0\<close> negates the length first (\<^verbatim>\<open>true\<close> exactly for 0)
  and compares the boolean, as the number 1 or 0, with 0.
\<close>

definition not_length_gt_0 :: "'a list \<Rightarrow> bool" where
  "not_length_gt_0 xs = ((if length xs = 0 then (1::nat) else 0) > 0)"

definition no_link_message :: "string \<Rightarrow> string" where
  "no_link_message jiraExecutionTicket =
     ''There are no related tickets where the test execution can be linked, to see test results just go''
       @ [newline] @ ''    directly here: '' @ jiraExecutionTicket"

text \<open>
  Lines 199 to 230: the optional message, then one \<^verbatim>\<open>updateIssue\<close> call per ticket. The
  calls return promises, so nothing is thrown while \<^verbatim>\<open>forEach\<close> runs.
\<close>

definition linkTestExecutionResults :: "string list \<Rightarrow> string \<Rightarrow> (error + unit) \<times> event list" where
  "linkTestExecutionResults relatedJiraTickets jiraExecutionTicket =
     (Inr (),
      (if not_length_gt_0 relatedJiraTickets
       then [ConsoleLog (Text (no_link_message jiraExecutionTicket))] else [])
      @ map (\<lambda>ticket. UpdateIssue ticket (link_object jiraExecutionTicket)) relatedJiraTickets)"

text \<open>The rest of the callback of line 223 once an update was answered.\<close>

definition link_settled :: "string \<Rightarrow> string \<Rightarrow> event list" where
  "link_settled ticket jiraExecutionTicket =
     [ConsoleLog (Text (''Ticket: '' @ ticket
        @ '' has been successfully linked with tests results coming from ''
        @ jiraExecutionTicket))]"

section \<open>addInfoAboutExecution\<close>

definition execution_comment ::
  "string \<Rightarrow> string \<Rightarrow> string \<Rightarrow> string \<Rightarrow> string \<Rightarrow> string \<Rightarrow> string" where
  "execution_comment githubRepo currentBranchName env actor githubRunId reportLink =
     ''Automated test run has been executed for '' @ githubRepo @ '' on branch ''
       @ currentBranchName @ '' and '' @ env @ '' environment by '' @ actor @ ''.'' @ [newline]
       @ ''    Click https://github.com/'' @ githubRepo @ ''/actions/runs/'' @ githubRunId
       @ '' to see the Github Action workflow summary,'' @ [newline]
       @ ''    or here to see full report '' @ reportLink"

text \<open>
  Lines 232 to 263. The stream is created on line 234, before the list is looked at;
  both \<^verbatim>\<open>forEach\<close> passes issue their calls while they run.
\<close>

definition addInfoAboutExecution ::
  "string list \<Rightarrow> string \<Rightarrow> string \<Rightarrow> string \<Rightarrow> string \<Rightarrow> string \<Rightarrow> string \<Rightarrow> string \<Rightarrow>
   state \<Rightarrow> (error + unit) \<times> event list \<times> state" where
  "addInfoAboutExecution relatedJiraTickets path githubRepo currentBranchName env actor
     githubRunId reportLink st =
     (let reportStream = ReadStream (opened st) path;
          st1 = st\<lparr>opened := Suc (opened st)\<rparr>;
          comment = execution_comment githubRepo currentBranchName env actor githubRunId reportLink
      in (Inr (),
          [ConsoleLog (Array relatedJiraTickets), CreateReadStream reportStream]
          @ (if not_length_gt_0 relatedJiraTickets
             then [ConsoleLog (Text ''There are no related tickets where test report can be linked'')]
             else map (\<lambda>ticket. AddAttachmentOnIssue ticket reportStream) relatedJiraTickets
                  @ map (\<lambda>ticket. AddCommentAdvanced ticket comment) relatedJiraTickets),
          st1))"

section \<open>Reading a list of effects\<close>

fun streams_created :: "event list \<Rightarrow> stream list" where
  "streams_created [] = []"
| "streams_created (CreateReadStream s # evs) = s # streams_created evs"
| "streams_created (ev # evs) = streams_created evs"

fun needle_requests :: "event list \<Rightarrow> http_request list" where
  "needle_requests [] = []"
| "needle_requests (Needle req # evs) = req # needle_requests evs"
| "needle_requests (ev # evs) = needle_requests evs"

fun link_updates :: "event list \<Rightarrow> (string \<times> issue_link) list" where
  "link_updates [] = []"
| "link_updates (UpdateIssue ticket link # evs) = (ticket, link) # link_updates evs"
| "link_updates (ev # evs) = link_updates evs"

fun attachments :: "event list \<Rightarrow> (string \<times> stream) list" where
  "attachments [] = []"
| "attachments (AddAttachmentOnIssue ticket s # evs) = (ticket, s) # attachments evs"
| "attachments (ev # evs) = attachments evs"

fun console :: "event list \<Rightarrow> logged list" where
  "console [] = []"
| "console (ConsoleLog l # evs) = l # console evs"
| "console (ConsoleError l # evs) = l # console evs"
| "console (ev # evs) = console evs"

section \<open>The characters an expression can consume\<close>

primrec consumes :: "regex \<Rightarrow> char \<Rightarrow> bool" where
  "consumes Nothing c = False"
| "consumes Eps c = False"
| "consumes (Class rs) c = in_class rs c"
| "consumes (NotClass rs) c = (\<not> in_class rs c)"
| "consumes (Seq r s) c = (consumes r c \<or> consumes s c)"
| "consumes (Alt r s) c = (consumes r c \<or> consumes s c)"
| "consumes (Star r) c = consumes r c"

section \<open>Concrete surroundings for the examples\<close>

definition demo_env :: process_env where
  "demo_env =
     \<lparr>XRAY_CLOUD_URL = Some ''https://xray.example'', XRAY_CLIENT_ID = Some ''id'',
      XRAY_CLIENT_SECRET = Some ''secret''\<rparr>"

text \<open>A file system with one readable directory.\<close>

definition reports_directory :: "string \<Rightarrow> error + string list" where
  "reports_directory dir =
     (if dir = ''reports'' then Inr [''a.xml'', ''b.txt'', ''c.xml'']
      else Inl (Error ''ENOENT''))"

text \<open>The add-on answering every request with a token, and the add-on unreachable.\<close>

definition needle_up :: "http_request \<Rightarrow> error + string" where
  "needle_up req = Inr ''token-1''"

definition needle_down :: "http_request \<Rightarrow> error + string" where
  "needle_down req = Inl (Error ''ECONNRESET'')"

text \<open>The commit logs of the specification's examples, and one with two projects.\<close>

definition log_other :: string where
  "log_other = ''abc DEMO-12 fix'' @ [newline] @ ''def demo-12 fix'' @ [newline] @ ''ghi OTHER-5 x''"

definition log_demo :: string where
  "log_demo = ''abc demo-3 fix''"

definition log_two :: string where
  "log_two = ''1f3a ZED-2 add export'' @ [newline] @ ''9c0b ABC-1 fix login''"

definition demo_projects :: "jira_object list" where
  "demo_projects = [\<lparr>key = ''DEMO''\<rparr>]"

text \<open>
  Two overlapping searches: the first for a branch whose one commit names \<^verbatim>\<open>OTHER-5\<close>,
  answered while the tracker lists the projects \<^verbatim>\<open>DEMO\<close> and \<^verbatim>\<open>OTHER\<close>; the second for
  the branch of \<open>log_demo\<close>, answered when the tracker lists \<^verbatim>\<open>DEMO\<close> only.
\<close>

definition log_foreign :: string where
  "log_foreign = ''77aa OTHER-5 tidy up''"

definition exec_two :: "string \<Rightarrow> error + string" where
  "exec_two command =
     (if command = git_command ''main'' ''other-work'' then Inr (ticket_pipeline log_foreign)
      else Inr (ticket_pipeline log_demo))"

definition both_projects :: "jira_object list" where
  "both_projects = [\<lparr>key = ''DEMO''\<rparr>, \<lparr>key = ''OTHER''\<rparr>]"

text \<open>A file system with two report directories, of one and of two reports.\<close>

definition two_directories :: "string \<Rightarrow> error + string list" where
  "two_directories dir =
     (if dir = ''reportsA'' then Inr [''a.xml'']
      else if dir = ''reportsB'' then Inr [''b1.xml'', ''b2.xml'']
      else Inl (Error ''ENOENT''))"

text \<open>A tracker client that resolves with a value that has no \<^verbatim>\<open>key\<close>.\<close>

definition answer_without_key :: "issue_fields \<Rightarrow> error + resolved" where
  "answer_without_key issue = Inr (ResolvedValue None)"

section \<open>The matcher decides the language\<close>

lemma conc_nil_iff: "[] \<in> conc A B \<longleftrightarrow> [] \<in> A \<and> [] \<in> B"
  by (auto simp: conc_def)

lemma conc_empty [simp]: "conc {} B = {}"
  by (simp add: conc_def)

lemma conc_eps [simp]: "conc {[]} B = B"
  by (auto simp: conc_def)

lemma conc_iff: "w \<in> conc A B \<longleftrightarrow> (\<exists>u v. w = u @ v \<and> u \<in> A \<and> v \<in> B)"
  by (auto simp: conc_def)

lemma conc_cons_iff:
  "c # w \<in> conc A B \<longleftrightarrow>
     (\<exists>u v. w = u @ v \<and> c # u \<in> A \<and> v \<in> B) \<or> ([] \<in> A \<and> c # w \<in> B)"
proof
  assume "c # w \<in> conc A B"
  then obtain x y where xy: "c # w = x @ y" "x \<in> A" "y \<in> B"
    by (auto simp: conc_def)
  show "(\<exists>u v. w = u @ v \<and> c # u \<in> A \<and> v \<in> B) \<or> ([] \<in> A \<and> c # w \<in> B)"
  proof (cases x)
    case Nil
    with xy show ?thesis by simp
  next
    case (Cons a x')
    with xy have "w = x' @ y" "c # x' \<in> A" by simp_all
    with xy show ?thesis by blast
  qed
next
  assume "(\<exists>u v. w = u @ v \<and> c # u \<in> A \<and> v \<in> B) \<or> ([] \<in> A \<and> c # w \<in> B)"
  then show "c # w \<in> conc A B"
  proof
    assume "\<exists>u v. w = u @ v \<and> c # u \<in> A \<and> v \<in> B"
    then obtain u v where "w = u @ v" "c # u \<in> A" "v \<in> B" by blast
    then have "c # w = (c # u) @ v" by simp
    with \<open>c # u \<in> A\<close> \<open>v \<in> B\<close> show ?thesis unfolding conc_def by blast
  next
    assume "[] \<in> A \<and> c # w \<in> B"
    then have "c # w = [] @ (c # w)" "[] \<in> A" "c # w \<in> B" by simp_all
    then show ?thesis unfolding conc_def by blast
  qed
qed

lemma star_cons_split:
  "x \<in> star A \<Longrightarrow> x = c # w \<Longrightarrow> \<exists>u v. w = u @ v \<and> c # u \<in> A \<and> v \<in> star A"
proof (induction arbitrary: w rule: star.induct)
  case star_nil
  then show ?case by simp
next
  case (star_app u v)
  show ?case
  proof (cases u)
    case Nil
    with star_app show ?thesis by simp
  next
    case (Cons a u')
    with star_app.prems have "w = u' @ v" "a = c" by simp_all
    with Cons star_app.hyps show ?thesis by blast
  qed
qed

lemma star_cons_iff:
  "c # w \<in> star A \<longleftrightarrow> (\<exists>u v. w = u @ v \<and> c # u \<in> A \<and> v \<in> star A)"
proof
  assume "c # w \<in> star A"
  then show "\<exists>u v. w = u @ v \<and> c # u \<in> A \<and> v \<in> star A"
    by (rule star_cons_split) simp
next
  assume "\<exists>u v. w = u @ v \<and> c # u \<in> A \<and> v \<in> star A"
  then obtain u v where "w = u @ v" "c # u \<in> A" "v \<in> star A" by blast
  then have "(c # u) @ v \<in> star A" by (intro star_app)
  with \<open>w = u @ v\<close> show "c # w \<in> star A" by simp
qed

lemma nullable_iff: "nullable r \<longleftrightarrow> [] \<in> lang r"
  by (induction r) (simp_all add: conc_nil_iff star_nil)

lemma lang_seq [simp]: "lang (seq r s) = conc (lang r) (lang s)"
  by (cases r) simp_all

lemma lang_alt [simp]: "lang (alt r s) = lang r \<union> lang s"
  by (cases r; cases s) simp_all

lemma deriv_word: "w \<in> lang (deriv c r) \<longleftrightarrow> c # w \<in> lang r"
proof (induction r arbitrary: w)
  case (Seq r s)
  have "w \<in> lang (deriv c (Seq r s)) \<longleftrightarrow>
          w \<in> conc (lang (deriv c r)) (lang s) \<or> (nullable r \<and> w \<in> lang (deriv c s))"
    by simp
  also have "\<dots> \<longleftrightarrow>
          (\<exists>u v. w = u @ v \<and> c # u \<in> lang r \<and> v \<in> lang s) \<or> ([] \<in> lang r \<and> c # w \<in> lang s)"
    by (simp add: conc_iff nullable_iff Seq.IH)
  also have "\<dots> \<longleftrightarrow> c # w \<in> lang (Seq r s)"
    by (simp add: conc_cons_iff)
  finally show ?case .
next
  case (Star r)
  have "w \<in> lang (deriv c (Star r)) \<longleftrightarrow> w \<in> conc (lang (deriv c r)) (star (lang r))"
    by simp
  also have "\<dots> \<longleftrightarrow> (\<exists>u v. w = u @ v \<and> c # u \<in> lang r \<and> v \<in> star (lang r))"
    by (simp add: conc_iff Star.IH)
  also have "\<dots> \<longleftrightarrow> c # w \<in> lang (Star r)"
    by (simp add: star_cons_iff)
  finally show ?case .
qed auto

lemma lang_deriv: "lang (deriv c r) = {w. c # w \<in> lang r}"
  by (auto simp: deriv_word)

lemma longest_Some: "longest r s = Some n \<Longrightarrow> n \<le> length s \<and> take n s \<in> lang r"
proof (induction s arbitrary: r n)
  case Nil
  then show ?case by (simp add: nullable_iff split: if_splits)
next
  case (Cons c cs)
  show ?case
  proof (cases "longest (deriv c r) cs")
    case None
    with Cons.prems show ?thesis by (simp add: nullable_iff split: if_splits)
  next
    case (Some m)
    with Cons.prems have n: "n = Suc m" by simp
    from Cons.IH [OF Some] have "m \<le> length cs" "take m cs \<in> lang (deriv c r)" by simp_all
    with n show ?thesis by (simp add: lang_deriv)
  qed
qed

lemma longest_complete: "n \<le> length s \<Longrightarrow> take n s \<in> lang r \<Longrightarrow> \<exists>m\<ge>n. longest r s = Some m"
proof (induction s arbitrary: r n)
  case Nil
  then show ?case by (simp add: nullable_iff)
next
  case (Cons c cs)
  show ?case
  proof (cases n)
    case 0
    with Cons.prems have "nullable r" by (simp add: nullable_iff)
    then show ?thesis using 0 by (cases "longest (deriv c r) cs") simp_all
  next
    case (Suc k)
    with Cons.prems have "k \<le> length cs" "take k cs \<in> lang (deriv c r)"
      by (simp_all add: lang_deriv)
    from Cons.IH [OF this] obtain m where "m \<ge> k" "longest (deriv c r) cs = Some m" by blast
    with Suc show ?thesis by simp
  qed
qed

lemma test_anchored_iff: "test_anchored r s \<longleftrightarrow> (\<exists>u v. s = u @ v \<and> u \<in> lang r)"
proof
  assume "test_anchored r s"
  then obtain n where "longest r s = Some n" by (auto simp: test_anchored_def)
  from longest_Some [OF this] have "take n s \<in> lang r" by simp
  moreover have "s = take n s @ drop n s" by simp
  ultimately show "\<exists>u v. s = u @ v \<and> u \<in> lang r" by blast
next
  assume "\<exists>u v. s = u @ v \<and> u \<in> lang r"
  then obtain u v where "s = u @ v" "u \<in> lang r" by blast
  then have "length u \<le> length s" "take (length u) s \<in> lang r" by simp_all
  from longest_complete [OF this] show "test_anchored r s" by (auto simp: test_anchored_def)
qed

lemma match_truthy_iff: "match_truthy r s \<longleftrightarrow> (\<exists>u v w. s = u @ v @ w \<and> v \<in> lang r)"
proof (induction s)
  case Nil
  have "match_truthy r [] \<longleftrightarrow> test_anchored r []" by (simp add: test_anchored_def)
  then show ?case by (simp add: test_anchored_iff)
next
  case (Cons c cs)
  have "match_truthy r (c # cs) \<longleftrightarrow> test_anchored r (c # cs) \<or> match_truthy r cs"
    by (simp add: test_anchored_def)
  also have "\<dots> \<longleftrightarrow> (\<exists>v w. c # cs = v @ w \<and> v \<in> lang r) \<or> (\<exists>u v w. cs = u @ v @ w \<and> v \<in> lang r)"
    by (simp add: test_anchored_iff Cons.IH)
  also have "\<dots> \<longleftrightarrow> (\<exists>u v w. c # cs = u @ v @ w \<and> v \<in> lang r)"
  proof
    assume "(\<exists>v w. c # cs = v @ w \<and> v \<in> lang r) \<or> (\<exists>u v w. cs = u @ v @ w \<and> v \<in> lang r)"
    then show "\<exists>u v w. c # cs = u @ v @ w \<and> v \<in> lang r"
    proof
      assume "\<exists>v w. c # cs = v @ w \<and> v \<in> lang r"
      then obtain v w where "c # cs = [] @ v @ w" "v \<in> lang r" by auto
      then show ?thesis by blast
    next
      assume "\<exists>u v w. cs = u @ v @ w \<and> v \<in> lang r"
      then obtain u v w where "c # cs = (c # u) @ v @ w" "v \<in> lang r" by auto
      then show ?thesis by blast
    qed
  next
    assume "\<exists>u v w. c # cs = u @ v @ w \<and> v \<in> lang r"
    then obtain u v w where uvw: "c # cs = u @ v @ w" "v \<in> lang r" by blast
    show "(\<exists>v w. c # cs = v @ w \<and> v \<in> lang r) \<or> (\<exists>u v w. cs = u @ v @ w \<and> v \<in> lang r)"
    proof (cases u)
      case Nil
      with uvw show ?thesis by auto
    next
      case (Cons a u')
      with uvw have "cs = u' @ v @ w" by simp
      with uvw show ?thesis by blast
    qed
  qed
  finally show ?case .
qed

lemma lang_consumes: "w \<in> lang r \<Longrightarrow> c \<in> set w \<Longrightarrow> consumes r c"
proof (induction r arbitrary: w)
  case (Star r)
  from Star.prems(1) have "w \<in> star (lang r)" by simp
  then show ?case using Star.prems(2)
  proof (induction rule: star.induct)
    case star_nil
    then show ?case by simp
  next
    case (star_app u v)
    then show ?case using Star.IH by auto
  qed
qed (fastforce simp: conc_iff)+

section \<open>The shape of a ticket key\<close>

lemma star_class: "w \<in> star (lang (Class rs)) \<longleftrightarrow> (\<forall>c\<in>set w. in_class rs c)"
proof
  assume "w \<in> star (lang (Class rs))"
  then show "\<forall>c\<in>set w. in_class rs c"
    by (induction rule: star.induct) auto
next
  assume "\<forall>c\<in>set w. in_class rs c"
  then show "w \<in> star (lang (Class rs))"
  proof (induction w)
    case Nil
    show ?case by (rule star_nil)
  next
    case (Cons c w)
    then have "[c] \<in> lang (Class rs)" "w \<in> star (lang (Class rs))" by simp_all
    then have "[c] @ w \<in> star (lang (Class rs))" by (rule star_app)
    then show ?case by simp
  qed
qed

lemma conc_class:
  "w \<in> conc (lang (Class rs)) B \<longleftrightarrow> (\<exists>c v. w = c # v \<and> in_class rs c \<and> v \<in> B)"
proof
  assume "w \<in> conc (lang (Class rs)) B"
  then obtain u v where "w = u @ v" "u \<in> lang (Class rs)" "v \<in> B"
    by (auto simp: conc_iff)
  then show "\<exists>c v. w = c # v \<and> in_class rs c \<and> v \<in> B" by auto
next
  assume "\<exists>c v. w = c # v \<and> in_class rs c \<and> v \<in> B"
  then obtain c v where "w = [c] @ v" "[c] \<in> lang (Class rs)" "v \<in> B" by auto
  then show "w \<in> conc (lang (Class rs)) B" unfolding conc_iff by blast
qed

lemma lang_Plus_Class:
  "w \<in> lang (Plus (Class rs)) \<longleftrightarrow> w \<noteq> [] \<and> (\<forall>c\<in>set w. in_class rs c)"
proof -
  have "w \<in> lang (Plus (Class rs)) \<longleftrightarrow>
          (\<exists>c v. w = c # v \<and> in_class rs c \<and> v \<in> star (lang (Class rs)))"
    unfolding Plus_def lang.simps(5) lang.simps(7) by (rule conc_class)
  also have "\<dots> \<longleftrightarrow> (\<exists>c v. w = c # v \<and> in_class rs c \<and> (\<forall>c\<in>set v. in_class rs c))"
    unfolding star_class ..
  also have "\<dots> \<longleftrightarrow> w \<noteq> [] \<and> (\<forall>c\<in>set w. in_class rs c)"
    by (cases w) auto
  finally show ?thesis .
qed

lemma in_class_dash: "in_class [(CHR ''-'', CHR ''-'')] c \<longleftrightarrow> c = CHR ''-''"
  by (auto simp: in_class_def)

lemma lang_dash_then_digits:
  "v \<in> lang (Seq (Lit CHR ''-'') (Plus (Class digits))) \<longleftrightarrow>
     (\<exists>d. v = CHR ''-'' # d \<and> d \<noteq> [] \<and> (\<forall>c\<in>set d. in_class digits c))"
proof -
  have "v \<in> lang (Seq (Lit CHR ''-'') (Plus (Class digits))) \<longleftrightarrow>
          (\<exists>c d. v = c # d \<and> in_class [(CHR ''-'', CHR ''-'')] c \<and> d \<in> lang (Plus (Class digits)))"
    unfolding Lit_def lang.simps(5) by (rule conc_class)
  then show ?thesis
    by (simp add: in_class_dash lang_Plus_Class)
qed

lemma lang_ticket_regex:
  "w \<in> lang ticket_regex \<longleftrightarrow>
     (\<exists>a d. w = a @ CHR ''-'' # d \<and> a \<noteq> [] \<and> (\<forall>c\<in>set a. in_class letters c)
            \<and> d \<noteq> [] \<and> (\<forall>c\<in>set d. in_class digits c))"
proof -
  have "w \<in> lang ticket_regex \<longleftrightarrow>
          (\<exists>a v. w = a @ v \<and> a \<in> lang (Plus (Class letters))
             \<and> v \<in> lang (Seq (Lit CHR ''-'') (Plus (Class digits))))"
    unfolding ticket_regex_def lang.simps(5) [of "Plus (Class letters)"] by (rule conc_iff)
  also have "\<dots> \<longleftrightarrow> (\<exists>a d. w = a @ CHR ''-'' # d \<and> a \<noteq> [] \<and> (\<forall>c\<in>set a. in_class letters c)
            \<and> d \<noteq> [] \<and> (\<forall>c\<in>set d. in_class digits c))"
    unfolding lang_dash_then_digits lang_Plus_Class by blast
  finally show ?thesis .
qed

lemma lang_strict_regex:
  "w \<in> lang strict_regex \<longleftrightarrow>
     (\<exists>l a d. w = l # a @ CHR ''-'' # d \<and> in_class letters l
        \<and> a \<noteq> [] \<and> (\<forall>c\<in>set a. in_class (letters @ digits) c)
        \<and> d \<noteq> [] \<and> (\<forall>c\<in>set d. in_class digits c))"
proof -
  let ?tail = "Seq (Plus (Class (letters @ digits))) (Seq (Lit CHR ''-'') (Plus (Class digits)))"
  have tail: "\<And>t. t \<in> lang ?tail \<longleftrightarrow>
      (\<exists>a d. t = a @ CHR ''-'' # d \<and> a \<noteq> [] \<and> (\<forall>c\<in>set a. in_class (letters @ digits) c)
            \<and> d \<noteq> [] \<and> (\<forall>c\<in>set d. in_class digits c))"
  proof -
    fix t
    have "t \<in> lang ?tail \<longleftrightarrow>
          (\<exists>a v. t = a @ v \<and> a \<in> lang (Plus (Class (letters @ digits)))
             \<and> v \<in> lang (Seq (Lit CHR ''-'') (Plus (Class digits))))"
      unfolding lang.simps(5) [of "Plus (Class (letters @ digits))"] by (rule conc_iff)
    also have "\<dots> \<longleftrightarrow> (\<exists>a d. t = a @ CHR ''-'' # d \<and> a \<noteq> []
            \<and> (\<forall>c\<in>set a. in_class (letters @ digits) c)
            \<and> d \<noteq> [] \<and> (\<forall>c\<in>set d. in_class digits c))"
      unfolding lang_dash_then_digits lang_Plus_Class by blast
    finally show "t \<in> lang ?tail \<longleftrightarrow>
      (\<exists>a d. t = a @ CHR ''-'' # d \<and> a \<noteq> [] \<and> (\<forall>c\<in>set a. in_class (letters @ digits) c)
            \<and> d \<noteq> [] \<and> (\<forall>c\<in>set d. in_class digits c))" .
  qed
  have "w \<in> lang strict_regex \<longleftrightarrow> (\<exists>l t. w = l # t \<and> in_class letters l \<and> t \<in> lang ?tail)"
    unfolding strict_regex_def lang.simps(5) [of "Class letters"] by (rule conc_class)
  also have "\<dots> \<longleftrightarrow> (\<exists>l a d. w = l # a @ CHR ''-'' # d \<and> in_class letters l
        \<and> a \<noteq> [] \<and> (\<forall>c\<in>set a. in_class (letters @ digits) c)
        \<and> d \<noteq> [] \<and> (\<forall>c\<in>set d. in_class digits c))"
    unfolding tail by blast
  finally show ?thesis .
qed

lemma not_letter_dash: "\<not> in_class letters CHR ''-''"
  by (simp add: in_class_def letters_def)

lemma not_digit_dash: "\<not> in_class digits CHR ''-''"
  by (simp add: in_class_def digits_def)

lemma letter_or_digit: "in_class letters c \<Longrightarrow> in_class (letters @ digits) c"
  by (simp add: in_class_def)

lemma first_separator:
  "c \<notin> set a \<Longrightarrow> c \<notin> set d \<Longrightarrow> a @ c # d = b @ c # e \<Longrightarrow> a = b"
proof (induction a arbitrary: b)
  case Nil
  then show ?case by (cases b) auto
next
  case (Cons x a)
  then show ?case by (cases b) auto
qed

lemma ticket_containing_strict:
  assumes "k \<in> lang ticket_regex" and "k = u @ v @ w" and "v \<in> lang strict_regex"
  shows "k \<in> lang strict_regex"
proof -
  from assms(1) obtain a d where k: "k = a @ CHR ''-'' # d" "a \<noteq> []"
    and a: "\<forall>c\<in>set a. in_class letters c" and d: "d \<noteq> []" "\<forall>c\<in>set d. in_class digits c"
    unfolding lang_ticket_regex by blast
  from assms(3) obtain l x y where v: "v = l # x @ CHR ''-'' # y" "x \<noteq> []"
    unfolding lang_strict_regex by blast
  from a have "CHR ''-'' \<notin> set a" using not_letter_dash by blast
  moreover from d have "CHR ''-'' \<notin> set d" using not_digit_dash by blast
  moreover from k assms(2) v have "a @ CHR ''-'' # d = (u @ l # x) @ CHR ''-'' # (y @ w)"
    by simp
  ultimately have "a = u @ l # x" by (rule first_separator)
  with v obtain h rest where hr: "a = h # rest" "rest \<noteq> []"
    by (cases u) auto
  with a have "in_class letters h" "\<forall>c\<in>set rest. in_class (letters @ digits) c"
    by (simp_all add: letter_or_digit)
  with hr k d have "k = h # rest @ CHR ''-'' # d \<and> in_class letters h \<and> rest \<noteq> []
      \<and> (\<forall>c\<in>set rest. in_class (letters @ digits) c) \<and> d \<noteq> [] \<and> (\<forall>c\<in>set d. in_class digits c)"
    by simp
  then show ?thesis unfolding lang_strict_regex by blast
qed

lemma ticket_no_newline: "w \<in> lang ticket_regex \<Longrightarrow> newline \<notin> set w"
proof
  assume "w \<in> lang ticket_regex" "newline \<in> set w"
  then have "consumes ticket_regex newline" by (rule lang_consumes)
  then show False
    by (simp add: ticket_regex_def Plus_def Lit_def in_class_def letters_def digits_def
        newline_def)
qed

lemma toUpperChar_letter: "in_class letters c \<Longrightarrow> in_class letters (toUpperChar c)"
  by (auto simp: in_class_def letters_def toUpperChar_def less_eq_char_def)

lemma toUpperChar_digit: "in_class digits c \<Longrightarrow> toUpperChar c = c"
  by (auto simp: in_class_def digits_def toUpperChar_def less_eq_char_def)

lemma toUpperChar_digit': "in_class digits c \<Longrightarrow> in_class digits (toUpperChar c)"
  by (simp add: toUpperChar_digit)

lemma toUpperChar_dash: "toUpperChar CHR ''-'' = CHR ''-''"
  by (simp add: toUpperChar_def)

lemma toUpperCase_ticket:
  assumes "m \<in> lang ticket_regex"
  shows "toUpperCase m \<in> lang ticket_regex"
proof -
  from assms obtain a d where m: "m = a @ CHR ''-'' # d" "a \<noteq> []"
    "\<forall>c\<in>set a. in_class letters c" "d \<noteq> []" "\<forall>c\<in>set d. in_class digits c"
    by (auto simp: lang_ticket_regex)
  then have "toUpperCase m = map toUpperChar a @ CHR ''-'' # map toUpperChar d"
    by (simp add: toUpperCase_def toUpperChar_dash)
  moreover from m have "map toUpperChar a \<noteq> []" "map toUpperChar d \<noteq> []"
    "\<forall>c\<in>set (map toUpperChar a). in_class letters c"
    "\<forall>c\<in>set (map toUpperChar d). in_class digits c"
    by (auto simp: toUpperChar_letter toUpperChar_digit')
  ultimately show ?thesis
    unfolding lang_ticket_regex by blast
qed

section \<open>The pieces of the ticket extraction\<close>

subsection \<open>Set semantics\<close>

lemma set_add_all_set: "set (set_add_all seen xs) = set seen \<union> set xs"
  by (induction xs arbitrary: seen) auto

lemma set_add_all_distinct: "distinct seen \<Longrightarrow> distinct (set_add_all seen xs)"
  by (induction xs arbitrary: seen) auto

lemma set_new_Set [simp]: "set (new_Set xs) = set xs"
  by (simp add: new_Set_def set_add_all_set)

lemma distinct_new_Set [simp]: "distinct (new_Set xs)"
  by (simp add: new_Set_def set_add_all_distinct)

lemma set_add_all_append:
  "set_add_all seen (xs @ ys) = set_add_all (set_add_all seen xs) ys"
  by (induction xs arbitrary: seen) auto

lemma new_Set_snoc:
  "new_Set (xs @ [x]) = (if x \<in> set xs then new_Set xs else new_Set xs @ [x])"
  by (simp add: new_Set_def set_add_all_append set_add_all_set)

subsection \<open>Lines\<close>

lemma split_on_not_Nil [simp]: "split_on sep s \<noteq> []"
  by (induction s) (auto split: list.splits)

lemma split_on_no_sep: "sep \<notin> set l \<Longrightarrow> split_on sep (l @ sep # rest) = l # split_on sep rest"
  by (induction l) (auto split: list.splits)

lemma split_on_unlines:
  "\<forall>l\<in>set ls. newline \<notin> set l \<Longrightarrow> split_on newline (unlines ls) = ls @ [[]]"
  by (induction ls) (simp_all add: unlines_def split_on_no_sep)

lemma split_on_first: "\<exists>w. s = hd (split_on sep s) @ w"
proof (induction s)
  case Nil
  show ?case by simp
next
  case (Cons c cs)
  then obtain w where w: "cs = hd (split_on sep cs) @ w" by blast
  show ?case
  proof (cases "c = sep")
    case True
    then show ?thesis by simp
  next
    case False
    obtain q qs where q: "split_on sep cs = q # qs"
      by (cases "split_on sep cs") simp_all
    with w have "c # cs = (c # q) @ w" by simp
    with False q show ?thesis by auto
  qed
qed

lemma split_on_piece:
  "p \<in> set (split_on sep s) \<Longrightarrow> \<exists>u w. s = u @ p @ w"
proof (induction s arbitrary: p)
  case Nil
  then show ?case by simp
next
  case (Cons c cs)
  show ?case
  proof (cases "c = sep")
    case True
    with Cons.prems have "p = [] \<or> p \<in> set (split_on sep cs)" by simp
    then show ?thesis
    proof
      assume "p = []"
      then have "c # cs = [] @ p @ (c # cs)" by simp
      then show ?thesis by blast
    next
      assume "p \<in> set (split_on sep cs)"
      from Cons.IH [OF this] obtain u w where "cs = u @ p @ w" by blast
      then have "c # cs = (c # u) @ p @ w" by simp
      then show ?thesis by blast
    qed
  next
    case False
    obtain q qs where q: "split_on sep cs = q # qs"
      by (cases "split_on sep cs") simp_all
    with False Cons.prems have "p = c # q \<or> p \<in> set qs" by simp
    then show ?thesis
    proof
      assume p: "p = c # q"
      from q have "q \<in> set (split_on sep cs)" by simp
      from Cons.IH [OF this] obtain u w where uw: "cs = u @ q @ w" by blast
      have "\<exists>w'. cs = q @ w'"
        using split_on_first [of cs sep] q by simp
      then obtain w' where "cs = q @ w'" by blast
      with p have "c # cs = [] @ p @ w'" by simp
      then show ?thesis by blast
    next
      assume "p \<in> set qs"
      with q have "p \<in> set (split_on sep cs)" by simp
      from Cons.IH [OF this] obtain u w where "cs = u @ p @ w" by blast
      then have "c # cs = (c # u) @ p @ w" by simp
      then show ?thesis by blast
    qed
  qed
qed

subsection \<open>grep and sort\<close>

lemma grep_o_line_match:
  "m \<in> set (grep_o_line r k s) \<Longrightarrow> m \<noteq> [] \<and> m \<in> lang r \<and> (\<exists>u w. s = u @ m @ w)"
proof (induction r k s rule: grep_o_line.induct)
  case (1 r k)
  then show ?case by simp
next
  case (2 r k c cs)
  then have "m \<in> set (grep_o_line r k cs)" by simp
  from "2.IH" [OF this] obtain u w where "m \<noteq> []" "m \<in> lang r" "cs = u @ m @ w" by blast
  then have "c # cs = (c # u) @ m @ w" by simp
  with \<open>m \<noteq> []\<close> \<open>m \<in> lang r\<close> show ?case by blast
next
  case (3 r c cs)
  show ?case
  proof (cases "longest r (c # cs)")
    case None
    with "3.prems" have "m \<in> set (grep_o_line r 0 cs)" by simp
    from "3.IH"(1) [OF None this] obtain u w where "m \<noteq> []" "m \<in> lang r" "cs = u @ m @ w"
      by blast
    then have "c # cs = (c # u) @ m @ w" by simp
    with \<open>m \<noteq> []\<close> \<open>m \<in> lang r\<close> show ?thesis by blast
  next
    case (Some n)
    show ?thesis
    proof (cases n)
      case 0
      with Some "3.prems" have "m \<in> set (grep_o_line r 0 cs)" by simp
      from "3.IH"(2) [OF Some 0 this] obtain u w where "m \<noteq> []" "m \<in> lang r" "cs = u @ m @ w"
        by blast
      then have "c # cs = (c # u) @ m @ w" by simp
      with \<open>m \<noteq> []\<close> \<open>m \<in> lang r\<close> show ?thesis by blast
    next
      case (Suc j)
      with Some "3.prems" have "m = take (Suc j) (c # cs) \<or> m \<in> set (grep_o_line r j cs)"
        by simp
      then show ?thesis
      proof
        assume m: "m = take (Suc j) (c # cs)"
        from longest_Some [OF Some] Suc m have "m \<in> lang r" by simp
        moreover from m have "m \<noteq> []" by simp
        moreover from m have "c # cs = [] @ m @ drop (Suc j) (c # cs)" by simp
        ultimately show ?thesis by blast
      next
        assume "m \<in> set (grep_o_line r j cs)"
        from "3.IH"(3) [OF Some Suc this] obtain u w
          where "m \<noteq> []" "m \<in> lang r" "cs = u @ m @ w" by blast
        then have "c # cs = (c # u) @ m @ w" by simp
        with \<open>m \<noteq> []\<close> \<open>m \<in> lang r\<close> show ?thesis by blast
      qed
    qed
  qed
qed

lemma grep_o_match:
  assumes "m \<in> set (grep_o r text)"
  shows "m \<noteq> [] \<and> m \<in> lang r \<and> (\<exists>u w. text = u @ m @ w)"
proof -
  from assms obtain line where line: "line \<in> set (split_on newline text)"
    and m: "m \<in> set (grep_o_line r 0 line)"
    by (auto simp: grep_o_def)
  from grep_o_line_match [OF m] obtain u w where mm: "m \<noteq> []" "m \<in> lang r" "line = u @ m @ w"
    by blast
  from split_on_piece [OF line] obtain u' w' where "text = u' @ line @ w'" by blast
  with mm have "text = (u' @ u) @ m @ (w @ w')" by simp
  with mm show ?thesis by blast
qed

lemma sorted_remdups_adj_distinct: "sorted xs \<Longrightarrow> distinct (remdups_adj xs)"
  by (induction xs rule: remdups_adj.induct) auto

lemma sort_u_props: "set (sort_u ls) = set ls \<and> sorted (sort_u ls) \<and> distinct (sort_u ls)"
  by (simp add: sort_u_def sorted_remdups_adj_distinct)

lemma initialJiraTicketsList_unlines:
  assumes "\<forall>l\<in>set ls. l \<noteq> [] \<and> newline \<notin> set l"
  shows "initialJiraTicketsList (unlines ls) = new_Set (map toUpperCase ls)"
proof -
  from assms have "split_on newline (unlines ls) = ls @ [[]]"
    by (simp add: split_on_unlines)
  moreover from assms have "filter (\<lambda>piece. piece \<noteq> []) ls = ls"
    by (simp add: filter_id_conv)
  ultimately show ?thesis by (simp add: initialJiraTicketsList_def)
qed

lemma extract_tickets_sorted:
  "extract_tickets log = new_Set (map toUpperCase (sort_u (grep_o ticket_regex log)))"
proof -
  have "\<forall>l\<in>set (sort_u (grep_o ticket_regex log)). l \<noteq> [] \<and> newline \<notin> set l"
    using grep_o_match [of _ ticket_regex log] ticket_no_newline
    by (auto simp: sort_u_props)
  then show ?thesis
    by (simp add: extract_tickets_def ticket_pipeline_def initialJiraTicketsList_unlines)
qed

lemma extract_tickets_ticket: "k \<in> set (extract_tickets log) \<Longrightarrow> k \<in> lang ticket_regex"
proof -
  assume "k \<in> set (extract_tickets log)"
  then obtain m where "m \<in> set (grep_o ticket_regex log)" "k = toUpperCase m"
    by (auto simp: extract_tickets_sorted sort_u_props)
  with grep_o_match [of m ticket_regex log] show ?thesis
    by (simp add: toUpperCase_ticket)
qed

subsection \<open>Arrays\<close>

lemma push_fields [simp]:
  "xmlReportFiles (push a x st) = xmlReportFiles st"
  "xrayToken (push a x st) = xrayToken st"
  "verifiedJiraTicketsList (push a x st) = verifiedJiraTicketsList st"
  "jiraProjectKeysArray (push a x st) = jiraProjectKeysArray st"
  "opened (push a x st) = opened st"
  "length (arrays (push a x st)) = length (arrays st)"
  by (simp_all add: push_def)

lemma array_at_push:
  "array_at (push a x st) b
     = (if b = a \<and> a < length (arrays st) then array_at st a @ [x] else array_at st b)"
  by (simp add: push_def array_at_def)

lemma pushed_many:
  "a < length (arrays st) \<Longrightarrow>
     foldl (\<lambda>s x. push a x s) st xs = st\<lparr>arrays := (arrays st)[a := array_at st a @ xs]\<rparr>"
proof (induction xs arbitrary: st)
  case Nil
  then show ?case by (simp add: array_at_def)
next
  case (Cons x xs)
  then show ?case by (simp add: array_at_push) (simp add: push_def)
qed

lemma push_matching_foldl:
  "push_matching a fs st = foldl (\<lambda>s x. push a x s) st (filter (test_anchored xml_regex) fs)"
  by (induction fs arbitrary: st) simp_all

lemma push_matching_pushed:
  "a < length (arrays st) \<Longrightarrow>
     push_matching a fs st
       = st\<lparr>arrays := (arrays st)[a := array_at st a @ filter (test_anchored xml_regex) fs]\<rparr>"
  by (simp add: push_matching_foldl pushed_many)

lemma push_keys_foldl:
  "jiraProjectKeysArray st = Some k \<Longrightarrow> push_keys xs st = foldl (\<lambda>s x. push k x s) st xs"
  by (induction xs arbitrary: st) simp_all

lemma push_keys_pushed:
  "jiraProjectKeysArray st = Some k \<Longrightarrow> k < length (arrays st) \<Longrightarrow>
     push_keys xs st = st\<lparr>arrays := (arrays st)[k := array_at st k @ xs]\<rparr>"
  by (simp add: push_keys_foldl pushed_many)

subsection \<open>Verification\<close>

lemma extractedKey_letters: "extractedKey ticket = filter (in_class letters) ticket"
  by (simp add: extractedKey_def test_anchored_def)

lemma verified_iff:
  "verified projectKeys ticket \<longleftrightarrow>
     (\<exists>u v w. ticket = u @ v @ w \<and> v \<in> lang strict_regex)
     \<and> filter (in_class letters) ticket \<in> set projectKeys"
  by (simp add: verified_def match_truthy_iff extractedKey_letters)

lemma verify_loop_all:
  assumes "jiraProjectKeysArray st = Some k" and "verifiedJiraTicketsList st = Some v"
    and "k \<noteq> v" and "v < length (arrays st)"
    and "\<forall>t\<in>set tickets. verified (array_at st k) t"
  shows "verify_loop tickets st = (None, foldl (\<lambda>s x. push v x s) st tickets)"
  using assms
proof (induction tickets arbitrary: st)
  case Nil
  show ?case by simp
next
  case (Cons t ts)
  have "verify_loop ts (push v t st) = (None, foldl (\<lambda>s x. push v x s) (push v t st) ts)"
    using Cons.prems by (intro Cons.IH) (simp_all add: array_at_push)
  with Cons.prems show ?case by (simp add: verified_def)
qed

lemma verify_loop_some:
  assumes "jiraProjectKeysArray st = Some k" and "verifiedJiraTicketsList st = Some v"
    and "k \<noteq> v"
    and "\<exists>t\<in>set tickets. \<not> verified (array_at st k) t"
  shows "fst (verify_loop tickets st) = Some not_found"
  using assms
proof (induction tickets arbitrary: st)
  case Nil
  then show ?case by simp
next
  case (Cons t ts)
  show ?case
  proof (cases "verified (array_at st k) t")
    case False
    with Cons.prems show ?thesis by (auto simp: verified_def)
  next
    case True
    with Cons.prems have rest: "\<exists>t'\<in>set ts. \<not> verified (array_at (push v t st) k) t'"
      by (auto simp: array_at_push)
    have "fst (verify_loop ts (push v t st)) = Some not_found"
    proof (rule Cons.IH)
      show "jiraProjectKeysArray (push v t st) = Some k" using Cons.prems by simp
      show "verifiedJiraTicketsList (push v t st) = Some v" using Cons.prems by simp
      show "k \<noteq> v" by (rule Cons.prems)
      show "\<exists>t'\<in>set ts. \<not> verified (array_at (push v t st) k) t'" by (rule rest)
    qed
    with True Cons.prems show ?thesis by (simp add: verified_def)
  qed
qed

lemma new_array_simps [simp]:
  "fst (new_array st) = length (arrays st)"
  "arrays (snd (new_array st)) = arrays st @ [[]]"
  "xmlReportFiles (snd (new_array st)) = xmlReportFiles st"
  "xrayToken (snd (new_array st)) = xrayToken st"
  "verifiedJiraTicketsList (snd (new_array st)) = verifiedJiraTicketsList st"
  "jiraProjectKeysArray (snd (new_array st)) = jiraProjectKeysArray st"
  "opened (snd (new_array st)) = opened st"
  by (simp_all add: new_array_def)

lemma findRelatedJiraTicket_answered:
  assumes "exec (git_command (branch_ref executedFromCI currentBranchToCompare)
             (branch_ref executedFromCI currentBranchName))
           = Inr jiraTickets"
    and "listProjects = Inr jiraProjects"
  shows "fst (findRelatedJiraTicket exec listProjects currentBranchToCompare currentBranchName
            executedFromCI st)
         = (if \<forall>t\<in>set (initialJiraTicketsList jiraTickets). verified (map key jiraProjects) t
            then Inr (initialJiraTicketsList jiraTickets) else Inl not_found)"
proof -
  let ?n = "length (arrays st)"
  let ?tickets = "initialJiraTicketsList jiraTickets"
  let ?keys = "map key jiraProjects"
  define st2 where "st2 = snd (find_candidates (exec (fst (find_begin currentBranchToCompare
      currentBranchName executedFromCI st))) (snd (find_begin currentBranchToCompare
      currentBranchName executedFromCI st)))"
  have st2: "jiraProjectKeysArray st2 = Some (Suc ?n)" "verifiedJiraTicketsList st2 = Some ?n"
    "arrays st2 = arrays st @ [[], []]"
    using assms(1)
    by (simp_all add: st2_def find_begin_def find_candidates_def new_array_def Let_def)
  have cand: "fst (find_candidates (exec (fst (find_begin currentBranchToCompare
      currentBranchName executedFromCI st))) (snd (find_begin currentBranchToCompare
      currentBranchName executedFromCI st))) = Inr ?tickets"
    using assms(1)
    by (simp add: find_begin_def find_candidates_def new_array_def Let_def)
  define st3 where "st3 = push_keys ?keys st2"
  have st3: "jiraProjectKeysArray st3 = Some (Suc ?n)" "verifiedJiraTicketsList st3 = Some ?n"
    "arrays st3 = arrays st @ [[], ?keys]"
    using st2 by (simp_all add: st3_def push_keys_pushed array_at_def nth_append list_update_append)
  have keys: "array_at st3 (Suc ?n) = ?keys" and empty: "array_at st3 ?n = []"
    using st3 by (simp_all add: array_at_def nth_append)
  have run: "findRelatedJiraTicket exec listProjects currentBranchToCompare currentBranchName
      executedFromCI st
      = (case verify_loop ?tickets st3 of
           (Some err, st4) \<Rightarrow> (Inl err, st4)
         | (None, st4) \<Rightarrow> (Inr (content st4 (verifiedJiraTicketsList st4)), st4))"
    using cand assms(2)
    by (simp add: findRelatedJiraTicket_def find_verify_def st3_def st2_def case_prod_unfold
        Let_def split: option.splits)
  show ?thesis
  proof (cases "\<forall>t\<in>set ?tickets. verified ?keys t")
    case True
    then have "\<forall>t\<in>set ?tickets. verified (array_at st3 (Suc ?n)) t" by (simp add: keys)
    from verify_loop_all [OF st3(1) st3(2) _ _ this]
    have loop: "verify_loop ?tickets st3 = (None, foldl (\<lambda>s x. push ?n x s) st3 ?tickets)"
      using st3(3) by simp
    have "foldl (\<lambda>s x. push ?n x s) st3 ?tickets
        = st3\<lparr>arrays := (arrays st3)[?n := array_at st3 ?n @ ?tickets]\<rparr>"
      using st3(3) by (intro pushed_many) simp
    with loop True st3 empty show ?thesis
      by (simp add: run content_def array_at_def nth_append list_update_append)
  next
    case False
    then have "\<exists>t\<in>set ?tickets. \<not> verified (array_at st3 (Suc ?n)) t" by (simp add: keys)
    from verify_loop_some [OF st3(1) st3(2) _ this]
    have "fst (verify_loop ?tickets st3) = Some not_found" by simp
    with False show ?thesis
      by (cases "verify_loop ?tickets st3") (simp add: run)
  qed
qed

lemma findRelatedJiraTicket_returned:
  assumes "fst (findRelatedJiraTicket exec listProjects currentBranchToCompare currentBranchName
            executedFromCI st) = Inr keys"
  shows "\<exists>jiraTickets jiraProjects.
           exec (git_command (branch_ref executedFromCI currentBranchToCompare)
             (branch_ref executedFromCI currentBranchName))
           = Inr jiraTickets \<and> listProjects = Inr jiraProjects"
proof (cases "exec (git_command (branch_ref executedFromCI currentBranchToCompare)
             (branch_ref executedFromCI currentBranchName))")
  case (Inl err)
  with assms show ?thesis
    by (simp add: findRelatedJiraTicket_def find_begin_def find_candidates_def find_verify_def
        new_array_def Let_def)
next
  case (Inr out)
  show ?thesis
  proof (cases listProjects)
    case (Inl err)
    with Inr assms show ?thesis
      by (simp add: findRelatedJiraTicket_def find_begin_def find_candidates_def find_verify_def
          new_array_def Let_def)
  next
    case (Inr projects)
    with \<open>exec _ = Inr out\<close> show ?thesis by blast
  qed
qed

section \<open>The report lister and the importer\<close>

lemma listXmlReports_listed:
  "readdirSync dir = Inr files \<Longrightarrow>
     listXmlReports readdirSync dir st
       = (Inr (filter (test_anchored xml_regex) files),
          st\<lparr>arrays := arrays st @ [filter (test_anchored xml_regex) files],
             xmlReportFiles := Some (length (arrays st))\<rparr>)"
  by (simp add: listXmlReports_def new_array_def Let_def push_matching_pushed array_at_def
      nth_append list_update_append)

lemma import_each_events:
  "fst (import_each penv dir testExecutionKey files st)
     = concat (map (\<lambda>(i, f). [CreateReadStream (ReadStream i (dir @ ''/'' @ f)),
                               Needle (import_request penv testExecutionKey (xrayToken st)
                                         (ReadStream i (dir @ ''/'' @ f)))])
                 (enumerate (opened st) files))"
  by (induction files arbitrary: st) (simp_all add: Let_def case_prod_unfold)

lemma import_each_state:
  "snd (import_each penv dir testExecutionKey files st)
     = st\<lparr>opened := opened st + length files\<rparr>"
  by (induction files arbitrary: st) (simp_all add: Let_def case_prod_unfold)

lemma needle_requests_import:
  "needle_requests (concat (map (\<lambda>(i, f). [CreateReadStream (g i f), Needle (h i f)]) ps))
     = map (\<lambda>(i, f). h i f) ps"
  by (induction ps) auto

lemma console_import:
  "console (concat (map (\<lambda>(i, f). [CreateReadStream (g i f), Needle (h i f)]) ps)) = []"
  by (induction ps) auto

lemma importXmlDataToXray_events:
  assumes "readdirSync dir = Inr files"
  shows "importXmlDataToXray readdirSync penv needle dir testExecutionKey st
     = (let found = filter (test_anchored xml_regex) files;
            token = (case needle (authenticate_request penv) of
                       Inr body \<Rightarrow> Some body | Inl err \<Rightarrow> xrayToken st)
        in (Inr (),
            Needle (authenticate_request penv)
            # (case needle (authenticate_request penv) of
                 Inr body \<Rightarrow> ConsoleLog (Text (''Generated Xray token => '' @ body))
               | Inl err \<Rightarrow> ConsoleLog (Thrown err))
            # concat (map (\<lambda>(i, f). [CreateReadStream (ReadStream i (dir @ ''/'' @ f)),
                 Needle (import_request penv testExecutionKey token
                           (ReadStream i (dir @ ''/'' @ f)))])
                 (enumerate (opened st) found)),
            st\<lparr>arrays := arrays st @ [found], xmlReportFiles := Some (length (arrays st)),
               xrayToken := token, opened := opened st + length found\<rparr>))"
proof (cases "needle (authenticate_request penv)")
  case (Inl err)
  let ?st1 = "st\<lparr>arrays := arrays st @ [filter (test_anchored xml_regex) files],
      xmlReportFiles := Some (length (arrays st))\<rparr>"
  show ?thesis
    using Inl
      import_each_events [of penv dir testExecutionKey "filter (test_anchored xml_regex) files" ?st1]
      import_each_state [of penv dir testExecutionKey "filter (test_anchored xml_regex) files" ?st1]
    by (simp add: importXmlDataToXray_def import_list_def import_resume_def import_answered_def
        import_send_def listXmlReports_listed [of readdirSync dir files, OF assms] Let_def
        case_prod_unfold array_at_def)
next
  case (Inr body)
  let ?st1 = "st\<lparr>arrays := arrays st @ [filter (test_anchored xml_regex) files],
      xmlReportFiles := Some (length (arrays st)), xrayToken := Some body\<rparr>"
  show ?thesis
    using Inr
      import_each_events [of penv dir testExecutionKey "filter (test_anchored xml_regex) files" ?st1]
      import_each_state [of penv dir testExecutionKey "filter (test_anchored xml_regex) files" ?st1]
    by (simp add: importXmlDataToXray_def import_list_def import_resume_def import_answered_def
        import_send_def listXmlReports_listed [of readdirSync dir files, OF assms] Let_def
        case_prod_unfold array_at_def)
qed

section \<open>The effect readers on the annotator and the linker\<close>

lemma link_updates_map [simp]:
  "link_updates (map (\<lambda>t. UpdateIssue t l) ts) = map (\<lambda>t. (t, l)) ts"
  by (induction ts) simp_all

lemma streams_created_map_attach [simp]:
  "streams_created (map (\<lambda>t. AddAttachmentOnIssue t s) ts @ evs) = streams_created evs"
  by (induction ts) simp_all

lemma streams_created_map_comment [simp]:
  "streams_created (map (\<lambda>t. AddCommentAdvanced t c) ts) = []"
  by (induction ts) simp_all

lemma attachments_map_attach [simp]:
  "attachments (map (\<lambda>t. AddAttachmentOnIssue t s) ts @ evs)
     = map (\<lambda>t. (t, s)) ts @ attachments evs"
  by (induction ts) simp_all

lemma attachments_map_comment [simp]:
  "attachments (map (\<lambda>t. AddCommentAdvanced t c) ts) = []"
  by (induction ts) simp_all

section \<open>The examples, evaluated\<close>

lemma reports_found:
  "filter (test_anchored xml_regex) [''a.xml'', ''b.txt'', ''c.xml''] = [''a.xml'', ''c.xml'']"
  by code_simp

lemma notes_found:
  "filter (test_anchored xml_regex) [''a.xml'', ''notes_xml.txt''] = [''a.xml'', ''notes_xml.txt'']"
  by code_simp

lemma listXmlReports_example_listing:
  "fst (listXmlReports (\<lambda>dir. Inr [''a.xml'', ''b.txt'', ''c.XML.bak'']) ''reports'' st)
     = Inr [''a.xml'']"
proof -
  have found: "filter (test_anchored xml_regex) [''a.xml'', ''b.txt'', ''c.XML.bak''] = [''a.xml'']"
    by code_simp
  have "fst (listXmlReports (\<lambda>dir. Inr [''a.xml'', ''b.txt'', ''c.XML.bak'']) ''reports'' st)
      = Inr (filter (test_anchored xml_regex) [''a.xml'', ''b.txt'', ''c.XML.bak''])"
    by (subst listXmlReports_listed [of _ _ "[''a.xml'', ''b.txt'', ''c.XML.bak'']"])
       (rule refl fst_conv)+
  then show ?thesis by (simp only: found)
qed

text \<open>A name with U+2028 before \<^verbatim>\<open>.xml\<close> is not accepted: the dot does not match it.\<close>

lemma line_separator_name:
  "\<not> test_anchored xml_regex ([CHR ''a'', CHR 0xE2, CHR 0x80, CHR 0xA8] @ ''.xml'')"
  by code_simp

lemma log_demo_candidates: "initialJiraTicketsList (ticket_pipeline log_demo) = [''DEMO-3'']"
  by code_simp

lemma log_demo_verified: "verified [''DEMO''] ''DEMO-3''"
  by code_simp

lemma log_demo_run:
  "fst (findRelatedJiraTicket (exec_on_log log_demo) (Inr demo_projects)
          currentBranchToCompare currentBranchName executedFromCI st) = Inr [''DEMO-3'']"
  using findRelatedJiraTicket_answered [of "exec_on_log log_demo" executedFromCI
      currentBranchToCompare currentBranchName "ticket_pipeline log_demo" "Inr demo_projects"
      demo_projects st]
  by (simp add: exec_on_log_def log_demo_candidates log_demo_verified demo_projects_def)

lemma log_other_candidates:
  "initialJiraTicketsList (ticket_pipeline log_other) = [''DEMO-12'', ''OTHER-5'']"
  by code_simp

lemma log_other_pipeline:
  "ticket_pipeline log_other = ''DEMO-12'' @ [newline] @ ''OTHER-5'' @ [newline] @ ''demo-12'' @ [newline]"
  by code_simp

lemma other_5_key: "filter (in_class letters) ''OTHER-5'' = ''OTHER''"
  by code_simp

lemma log_two_extract: "extract_tickets log_two = [''ABC-1'', ''ZED-2'']"
  by code_simp

lemma log_two_first: "first_occurrence_tickets log_two = [''ZED-2'', ''ABC-1'']"
  by code_simp

lemma log_two_grep: "grep_o ticket_regex log_two = [''ZED-2'', ''ABC-1'']"
  by code_simp

section \<open>What the finder returns\<close>

text \<open>
  C1, as amended. In an invocation of \<open>findRelatedJiraTicket\<close> that no other invocation
  of it overlaps: if it returns a list, then the shell command and the project listing of
  that call both answered, the list is the whole list of deduplicated candidates (none was
  dropped), and every key in it has a part that matches \<^verbatim>\<open>[a-zA-Z][a-zA-Z0-9]+-[0-9]+\<close>
  and has, as its letters, a project key of that listing; when the command's output is what
  the pipeline of line 168 prints for some commit log, every returned key as a whole
  matches both \<^verbatim>\<open>[a-zA-Z]+-[0-9]+\<close> and the stricter expression. Conversely, if some
  candidate violates one of the two conditions, the call ends in an error.
\<close>

theorem findRelatedJiraTicket_returns_verified_keys:
  "(fst (findRelatedJiraTicket exec listProjects currentBranchToCompare currentBranchName
        executedFromCI st) = Inr keys
    \<longrightarrow> (\<exists>jiraTickets jiraProjects.
          exec (git_command (branch_ref executedFromCI currentBranchToCompare)
                  (branch_ref executedFromCI currentBranchName)) = Inr jiraTickets
        \<and> listProjects = Inr jiraProjects
        \<and> keys = initialJiraTicketsList jiraTickets
        \<and> (\<forall>k\<in>set keys. (\<exists>u v w. k = u @ v @ w \<and> v \<in> lang strict_regex)
              \<and> filter (in_class letters) k \<in> key ` set jiraProjects)
        \<and> (\<forall>log. jiraTickets = ticket_pipeline log
              \<longrightarrow> (\<forall>k\<in>set keys. k \<in> lang ticket_regex \<and> k \<in> lang strict_regex))))
   \<and> (exec (git_command (branch_ref executedFromCI currentBranchToCompare)
              (branch_ref executedFromCI currentBranchName)) = Inr jiraTickets
       \<and> listProjects = Inr jiraProjects
       \<and> t \<in> set (initialJiraTicketsList jiraTickets)
       \<and> \<not> ((\<exists>u v w. t = u @ v @ w \<and> v \<in> lang strict_regex)
             \<and> filter (in_class letters) t \<in> key ` set jiraProjects)
      \<longrightarrow> (\<exists>err. fst (findRelatedJiraTicket exec listProjects currentBranchToCompare
             currentBranchName executedFromCI st) = Inl err))"
proof (intro conjI impI)
  assume ok: "fst (findRelatedJiraTicket exec listProjects currentBranchToCompare
      currentBranchName executedFromCI st) = Inr keys"
  from findRelatedJiraTicket_returned [OF ok] obtain out projects
    where out: "exec (git_command (branch_ref executedFromCI currentBranchToCompare)
                  (branch_ref executedFromCI currentBranchName)) = Inr out"
      and projects: "listProjects = Inr projects" by blast
  note run = findRelatedJiraTicket_answered [of exec executedFromCI currentBranchToCompare
      currentBranchName out listProjects projects st, OF out projects]
  from ok run have all: "\<forall>t\<in>set (initialJiraTicketsList out). verified (map key projects) t"
    by (auto split: if_splits)
  with ok run have keys: "keys = initialJiraTicketsList out" by simp
  from all keys have sem: "\<forall>k\<in>set keys. (\<exists>u v w. k = u @ v @ w \<and> v \<in> lang strict_regex)
      \<and> filter (in_class letters) k \<in> key ` set projects"
    by (simp add: verified_iff)
  have piped: "\<forall>log. out = ticket_pipeline log
      \<longrightarrow> (\<forall>k\<in>set keys. k \<in> lang ticket_regex \<and> k \<in> lang strict_regex)"
  proof (intro allI impI ballI)
    fix log k
    assume "out = ticket_pipeline log" "k \<in> set keys"
    with keys have "k \<in> set (extract_tickets log)" by (simp add: extract_tickets_def)
    then have ticket: "k \<in> lang ticket_regex" by (rule extract_tickets_ticket)
    from sem \<open>k \<in> set keys\<close> obtain u v w where "k = u @ v @ w" "v \<in> lang strict_regex"
      by blast
    with ticket have "k \<in> lang strict_regex" by (rule ticket_containing_strict)
    with ticket show "k \<in> lang ticket_regex \<and> k \<in> lang strict_regex" ..
  qed
  from out projects keys sem piped
  show "\<exists>jiraTickets jiraProjects.
          exec (git_command (branch_ref executedFromCI currentBranchToCompare)
                  (branch_ref executedFromCI currentBranchName)) = Inr jiraTickets
        \<and> listProjects = Inr jiraProjects
        \<and> keys = initialJiraTicketsList jiraTickets
        \<and> (\<forall>k\<in>set keys. (\<exists>u v w. k = u @ v @ w \<and> v \<in> lang strict_regex)
              \<and> filter (in_class letters) k \<in> key ` set jiraProjects)
        \<and> (\<forall>log. jiraTickets = ticket_pipeline log
              \<longrightarrow> (\<forall>k\<in>set keys. k \<in> lang ticket_regex \<and> k \<in> lang strict_regex))"
    by blast
next
  assume a: "exec (git_command (branch_ref executedFromCI currentBranchToCompare)
              (branch_ref executedFromCI currentBranchName)) = Inr jiraTickets
       \<and> listProjects = Inr jiraProjects
       \<and> t \<in> set (initialJiraTicketsList jiraTickets)
       \<and> \<not> ((\<exists>u v w. t = u @ v @ w \<and> v \<in> lang strict_regex)
             \<and> filter (in_class letters) t \<in> key ` set jiraProjects)"
  then have "\<not> verified (map key jiraProjects) t"
    by (simp add: verified_iff)
  with a have "\<not> (\<forall>t\<in>set (initialJiraTicketsList jiraTickets). verified (map key jiraProjects) t)"
    by blast
  with a show "\<exists>err. fst (findRelatedJiraTicket exec listProjects currentBranchToCompare
             currentBranchName executedFromCI st) = Inl err"
    using findRelatedJiraTicket_answered [of exec executedFromCI currentBranchToCompare
        currentBranchName jiraTickets listProjects jiraProjects st]
    by simp
qed

theorem findRelatedJiraTicket_returns_verified_keys_witness:
  "fst (findRelatedJiraTicket (exec_on_log log_demo) (Inr demo_projects) ''main'' ''feature'' True
      initial_state) = Inr [''DEMO-3'']
   \<and> ''DEMO-3'' \<in> lang ticket_regex
   \<and> ''DEMO-3'' \<in> lang strict_regex
   \<and> filter (in_class letters) ''DEMO-3'' \<in> key ` set demo_projects
   \<and> ''OTHER-5'' \<in> set (initialJiraTicketsList (ticket_pipeline log_other))
   \<and> filter (in_class letters) ''OTHER-5'' \<notin> key ` set demo_projects
   \<and> (\<exists>err. fst (findRelatedJiraTicket (exec_on_log log_other) (Inr demo_projects) ''main''
         ''feature'' True initial_state) = Inl err)"
proof -
  have ok: "fst (findRelatedJiraTicket (exec_on_log log_demo) (Inr demo_projects) ''main''
      ''feature'' True initial_state) = Inr [''DEMO-3'']"
    by (rule log_demo_run)
  from findRelatedJiraTicket_returns_verified_keys [of "exec_on_log log_demo" "Inr demo_projects"
      "''main''" "''feature''" True initial_state "[''DEMO-3'']", THEN conjunct1, rule_format, OF ok]
  obtain out projects where
    out: "exec_on_log log_demo (git_command (branch_ref True ''main'') (branch_ref True ''feature''))
            = Inr out"
    and projects: "Inr demo_projects = (Inr projects :: error + jira_object list)"
    and sem: "\<forall>k\<in>set [''DEMO-3'']. (\<exists>u v w. k = u @ v @ w \<and> v \<in> lang strict_regex)
        \<and> filter (in_class letters) k \<in> key ` set projects"
    and piped: "\<forall>log. out = ticket_pipeline log
        \<longrightarrow> (\<forall>k\<in>set [''DEMO-3'']. k \<in> lang ticket_regex \<and> k \<in> lang strict_regex)"
    by blast
  from out have "out = ticket_pipeline log_demo" by (simp add: exec_on_log_def)
  with piped have shape: "''DEMO-3'' \<in> lang ticket_regex \<and> ''DEMO-3'' \<in> lang strict_regex"
    by auto
  from projects sem have listed: "filter (in_class letters) ''DEMO-3'' \<in> key ` set demo_projects"
    by simp
  have cand: "''OTHER-5'' \<in> set (initialJiraTicketsList (ticket_pipeline log_other))"
    by (simp add: log_other_candidates)
  have foreign: "filter (in_class letters) ''OTHER-5'' \<notin> key ` set demo_projects"
    by (simp add: other_5_key demo_projects_def)
  have out': "exec_on_log log_other
      (git_command (branch_ref True ''main'') (branch_ref True ''feature''))
        = Inr (ticket_pipeline log_other)"
    by (simp add: exec_on_log_def)
  from findRelatedJiraTicket_returns_verified_keys [of "exec_on_log log_other"
      "Inr demo_projects" "''main''" "''feature''" True initial_state _ "ticket_pipeline log_other"
      demo_projects "''OTHER-5''", THEN conjunct2] out' cand foreign
  have "\<exists>err. fst (findRelatedJiraTicket (exec_on_log log_other) (Inr demo_projects) ''main''
         ''feature'' True initial_state) = Inl err"
    by blast
  with ok shape listed cand foreign show ?thesis by blast
qed

text \<open>
  C1 as stated fails for overlapping invocations, which share the two module-level
  arrays. The first of two overlapping calls pushes \<^verbatim>\<open>OTHER-5\<close>, verified against its own
  listing, onto the array the second call made; the second call returns that array, so
  its list holds \<^verbatim>\<open>OTHER-5\<close> although \<^verbatim>\<open>OTHER\<close> is not among the project keys fetched
  during the second call. On its own the second call returns \<^verbatim>\<open>DEMO-3\<close> only.
\<close>

theorem overlapping_finds_mix_their_lists:
  "overlapping_finds exec_two (Inr both_projects) ''main'' ''other-work'' False
       (Inr demo_projects) ''main'' ''demo-work'' False initial_state
     = (Inr [''OTHER-5'', ''DEMO-3''], Inr [''OTHER-5'', ''DEMO-3''])
   \<and> filter (in_class letters) ''OTHER-5'' = ''OTHER''
   \<and> ''OTHER'' \<notin> key ` set demo_projects
   \<and> fst (findRelatedJiraTicket exec_two (Inr demo_projects) ''main'' ''demo-work'' False
        initial_state) = Inr [''DEMO-3'']"
  by code_simp

section \<open>All or nothing\<close>



section \<open>The extraction step\<close>

text \<open>
  C3, as amended. For every commit log text the extraction of lines 168 to 170 returns
  the matches of \<^verbatim>\<open>[a-zA-Z]+-[0-9]+\<close> in the text (each a substring of it), uppercased
  and without duplicates, the same keys as an extraction in order of occurrence would
  give; their order is the order of first occurrence in the output of \<^verbatim>\<open>sort -u\<close>, that
  is, in the list of distinct matches sorted by character code before uppercasing, and
  not the order of first occurrence in the text.
\<close>

theorem extract_tickets_in_sort_order:
  "extract_tickets log = new_Set (map toUpperCase (sort_u (grep_o ticket_regex log)))
   \<and> sorted (sort_u (grep_o ticket_regex log))
   \<and> distinct (sort_u (grep_o ticket_regex log))
   \<and> set (sort_u (grep_o ticket_regex log)) = set (grep_o ticket_regex log)
   \<and> distinct (extract_tickets log)
   \<and> set (extract_tickets log) = toUpperCase ` set (grep_o ticket_regex log)
   \<and> set (extract_tickets log) = set (first_occurrence_tickets log)
   \<and> (\<forall>m\<in>set (grep_o ticket_regex log). m \<in> lang ticket_regex \<and> (\<exists>u w. log = u @ m @ w))"
  using grep_o_match [of _ ticket_regex log]
  by (simp add: extract_tickets_sorted sort_u_props first_occurrence_tickets_def)

theorem extract_tickets_in_sort_order_witness:
  "''ZED-2'' \<in> set (grep_o ticket_regex log_two)
   \<and> ''ZED-2'' \<in> lang ticket_regex
   \<and> (\<exists>u w. log_two = u @ ''ZED-2'' @ w)
   \<and> extract_tickets log_two = new_Set (map toUpperCase (sort_u [''ZED-2'', ''ABC-1'']))"
  using extract_tickets_in_sort_order [of log_two]
  by (simp add: log_two_grep)

text \<open>
  C3 as stated fails on a log whose first commit names \<^verbatim>\<open>ZED-2\<close> and whose second names
  \<^verbatim>\<open>ABC-1\<close>: the extraction returns \<^verbatim>\<open>ABC-1\<close> first.
\<close>

theorem extract_tickets_not_in_order_of_occurrence:
  "extract_tickets log_two = [''ABC-1'', ''ZED-2'']
   \<and> first_occurrence_tickets log_two = [''ZED-2'', ''ABC-1'']
   \<and> extract_tickets log_two \<noteq> first_occurrence_tickets log_two"
  by (simp add: log_two_extract log_two_first)

section \<open>The finder on one commit\<close>


section \<open>The report lister\<close>

text \<open>
  C5. \<open>listXmlReports\<close> is meant to return the entries whose name contains \<^verbatim>\<open>.xml\<close>.
  On a directory holding \<^verbatim>\<open>a.xml\<close> and \<^verbatim>\<open>notes_xml.txt\<close> it returns both, although
  the second name does not contain \<^verbatim>\<open>.xml\<close>: the dot before \<^verbatim>\<open>xml\<close> in the expression
  is not escaped and accepts the underscore.
\<close>

theorem listXmlReports_accepts_name_without_dot_xml:
  "fst (listXmlReports (\<lambda>dir. Inr [''a.xml'', ''notes_xml.txt'']) ''reports'' st)
     = Inr [''a.xml'', ''notes_xml.txt'']
   \<and> \<not> contains ''.xml'' ''notes_xml.txt''"
proof
  have "fst (listXmlReports (\<lambda>dir. Inr [''a.xml'', ''notes_xml.txt'']) ''reports'' st)
      = Inr (filter (test_anchored xml_regex) [''a.xml'', ''notes_xml.txt''])"
    by (subst listXmlReports_listed [of _ _ "[''a.xml'', ''notes_xml.txt'']"]) (rule refl fst_conv)+
  then show "fst (listXmlReports (\<lambda>dir. Inr [''a.xml'', ''notes_xml.txt'']) ''reports'' st)
      = Inr [''a.xml'', ''notes_xml.txt'']"
    by (simp only: notes_found)
  show "\<not> contains ''.xml'' ''notes_xml.txt''" by simp
qed

section \<open>Imports after a failed authentication\<close>




section \<open>One import request per report\<close>




section \<open>The linker on an empty list\<close>

text \<open>
  C8. For every execution-ticket key, \<open>linkTestExecutionResults\<close> on the empty list of
  related tickets returns normally, issues no \<^verbatim>\<open>updateIssue\<close> call, and its only effect
  is one console message, which ends in the execution ticket's key.
\<close>

theorem linkTestExecutionResults_empty_list:
  "linkTestExecutionResults [] jiraExecutionTicket
     = (Inr (), [ConsoleLog (Text (no_link_message jiraExecutionTicket))])
   \<and> link_updates (snd (linkTestExecutionResults [] jiraExecutionTicket)) = []
   \<and> (\<exists>lead. no_link_message jiraExecutionTicket = lead @ jiraExecutionTicket)"
  by (simp add: linkTestExecutionResults_def not_length_gt_0_def no_link_message_def)

section \<open>What the ticket creator returns\<close>

text \<open>
  C9, as amended. Whatever the arguments and whatever the tracker client does,
  \<open>createJiraTestExecutionTicket\<close> returns a value and never an error. When the client
  resolves with a value other than \<^verbatim>\<open>undefined\<close> and \<^verbatim>\<open>null\<close>, it returns that value's
  \<^verbatim>\<open>key\<close> property and logs nothing: the key of the created ticket, or \<^verbatim>\<open>undefined\<close> when
  the value has no key. When the client rejects, or resolves with \<^verbatim>\<open>undefined\<close> or
  \<^verbatim>\<open>null\<close>, it returns \<^verbatim>\<open>null\<close> with the failure on \<^verbatim>\<open>console.error\<close>.
\<close>

theorem createJiraTestExecutionTicket_never_rejects:
  "(\<exists>value. fst (createJiraTestExecutionTicket addNewIssue githubRepo githubRun env actor
        githubRunId branch) = Inr value)
   \<and> ((\<exists>testExecutionKey.
          addNewIssue (issueObject githubRepo githubRun env actor githubRunId branch)
            = Inr (ResolvedValue (Some testExecutionKey))
        \<and> createJiraTestExecutionTicket addNewIssue githubRepo githubRun env actor githubRunId
            branch = (Inr (Key testExecutionKey), []))
      \<or> (addNewIssue (issueObject githubRepo githubRun env actor githubRunId branch)
            = Inr (ResolvedValue None)
        \<and> createJiraTestExecutionTicket addNewIssue githubRepo githubRun env actor githubRunId
            branch = (Inr Undefined, []))
      \<or> (\<exists>failure.
          createJiraTestExecutionTicket addNewIssue githubRepo githubRun env actor githubRunId
            branch = (Inr Null, [ConsoleError (Thrown failure)])
        \<and> (addNewIssue (issueObject githubRepo githubRun env actor githubRunId branch)
              = Inl failure
            \<or> addNewIssue (issueObject githubRepo githubRun env actor githubRunId branch)
              = Inr ResolvedUndefined
            \<or> addNewIssue (issueObject githubRepo githubRun env actor githubRunId branch)
              = Inr ResolvedNull)))"
proof (cases "addNewIssue (issueObject githubRepo githubRun env actor githubRunId branch)")
  case (Inl err)
  then show ?thesis by (simp add: createJiraTestExecutionTicket_def)
next
  case (Inr answer)
  show ?thesis
  proof (cases answer)
    case ResolvedUndefined
    with Inr show ?thesis by (simp add: createJiraTestExecutionTicket_def)
  next
    case ResolvedNull
    with Inr show ?thesis by (simp add: createJiraTestExecutionTicket_def)
  next
    case (ResolvedValue property)
    with Inr show ?thesis by (cases property) (simp_all add: createJiraTestExecutionTicket_def)
  qed
qed

text \<open>
  C9 as stated fails when the tracker client resolves with a value that has no \<^verbatim>\<open>key\<close>:
  the function returns \<^verbatim>\<open>undefined\<close>, which is neither a ticket key nor \<^verbatim>\<open>null\<close>, and
  logs nothing.
\<close>

theorem createJiraTestExecutionTicket_returns_undefined:
  "createJiraTestExecutionTicket answer_without_key ''org/repo'' ''12'' ''staging'' ''dev''
     ''4711'' ''main'' = (Inr Undefined, [])"
  by (simp add: createJiraTestExecutionTicket_def answer_without_key_def)

section \<open>One report stream per annotation\<close>

text \<open>
  C10. However many tickets the list holds, one invocation of \<open>addInfoAboutExecution\<close>
  creates exactly one read stream, on the report path, and the attachment calls are one
  per ticket, in list order, each carrying that very stream.
\<close>

theorem addInfoAboutExecution_opens_one_stream:
  "streams_created (fst (snd (addInfoAboutExecution relatedJiraTickets path githubRepo
      currentBranchName env actor githubRunId reportLink st)))
     = [ReadStream (opened st) path]
   \<and> attachments (fst (snd (addInfoAboutExecution relatedJiraTickets path githubRepo
      currentBranchName env actor githubRunId reportLink st)))
     = map (\<lambda>ticket. (ticket, ReadStream (opened st) path)) relatedJiraTickets
   \<and> opened (snd (snd (addInfoAboutExecution relatedJiraTickets path githubRepo
      currentBranchName env actor githubRunId reportLink st))) = Suc (opened st)"
  by (cases relatedJiraTickets)
     (simp_all add: addInfoAboutExecution_def not_length_gt_0_def Let_def)

end
